theory Spec2Isabelle
  imports Main "HOL-Library.AList" "HOL-Library.Product_Lexorder"
begin

section \<open>The data of \<open>src/components/Layout.tsx\<close>\<close>

text \<open>
  The development embeds the \<open>Layout\<close> component of rgl-dnd: the module-level variables
  \<open>groupLayouts\<close>, \<open>groupKeys\<close>, \<open>groupIndex\<close> and \<open>hoveredGroups\<close>, the component's state and
  the handlers that change them. Left out are the renderer, the measurements of the DOM
  (\<open>componentDidMount\<close>, \<open>resize\<close>, \<open>getWidth\<close>) and \<open>hover\<close> with \<open>moveCardItem\<close> and
  \<open>moveGroupItem\<close>, which build an item from the partial objects the host drags in and
  then call \<open>removeHoverdGroupItem\<close> and \<open>moveItem\<close>, both modelled below.

  A \<open>LayoutItem\<close> is a JavaScript object. The handlers read and write its \<open>i\<close>, \<open>x\<close>, \<open>y\<close>,
  \<open>w\<close>, \<open>h\<close>, \<open>static\<close>, \<open>placeholder\<close> and \<open>group\<close> properties; the fields carry the prefix
  \<open>l_\<close> because one-letter constants would capture the variables of every statement.
  \<open>l_placeholder\<close> is \<open>False\<close> when the property is absent (\<open>delete layoutItem.placeholder\<close>)
  and \<open>True\<close> after \<open>layoutItem.placeholder = true\<close>; the file stores no other value in it.
  Numbers are integers: the grid coordinates the handlers compare and subtract.
\<close>

record LayoutItem =
  l_i :: string
  l_x :: int
  l_y :: int
  l_w :: int
  l_h :: int
  l_static :: bool
  l_placeholder :: bool
  l_group :: "string option"

type_synonym layout = "LayoutItem list"

type_synonym DragItem = LayoutItem

type_synonym XYCoord = "int \<times> int"

datatype CompactType = Vertical | Horizontal | NoCompact

text \<open>
  The props the modelled handlers read. An optional callback of the host
  (\<open>this.props.onLayoutChange?.(...)\<close>) is a flag saying whether the host passed one; a call of
  it is recorded in the log of the world, below.
\<close>

record LayoutProps =
  p_group :: string
  p_layouts :: layout
  p_compactType :: CompactType
  p_cols :: int
  p_preventCollision :: bool
  p_onLayoutChange :: bool
  p_onDrop :: bool
  p_onResizeStop :: bool

text \<open>
  \<open>LayoutStates\<close> without \<open>offset\<close> and \<open>containerWidth\<close>, which hold measurements of the DOM
  and are read by \<open>calcXY\<close> and the renderer only.
\<close>

record LayoutStates =
  accept :: "string list"
  layouts :: layout
  oldLayouts :: "layout option"
  placeholder :: "LayoutItem option"
  draggingItem :: "LayoutItem option"
  prevPosition :: "XYCoord option"

text \<open>
  An instance of the class. \<open>mounted\<close> says that \<open>this.containerRef.current\<close> is set.
\<close>

record Layout =
  group :: string
  props :: LayoutProps
  state :: LayoutStates
  mounted :: bool

text \<open>The calls of the host's callbacks, with the instance that made the call.\<close>

datatype event =
  LayoutChange nat layout
| Drop nat layout LayoutItem DragItem string string
| ResizeStop nat layout

text \<open>
  The module and the instances. Instances are objects, named by a reference (a number);
  \<open>groupLayouts\<close> is the object \<open>{[key: string]: Layout}\<close>, an association list in insertion
  order whose values are references (JavaScript lists keys that are array indices first; a
  group is not expected to be named \<open>7\<close>). Two instances can carry the same group name, and
  then the registry holds the later one: the handlers below take \<open>this\<close> as a reference and
  look other instances up in the registry, as the source does.
\<close>

record world =
  insts :: "nat \<Rightarrow> Layout"
  groupLayouts :: "(string \<times> nat) list"
  groupKeys :: "string list"
  groupIndex :: nat
  hoveredGroups :: "string list"
  emitted :: "event list"

text \<open>
  \<open>../utils\<close> and \<open>../constants\<close> are not part of the sources. What the handlers import from
  them is a parameter of the model, so every theorem about a handler holds for whatever
  these functions compute. \<open>u_calcXY\<close> stands for the method \<open>this.calcXY\<close> as a whole: it
  reads the scroll position and the measured offset of the container before it calls
  \<open>calcXY\<close> of the utils.
\<close>

record utils =
  DEFAULT_GROUP :: string
  DEFAULT_ITEMTYPE :: string
  u_calcXY :: "Layout \<Rightarrow> LayoutItem \<Rightarrow> XYCoord \<Rightarrow> XYCoord"
  u_cloneLayouts :: "layout \<Rightarrow> layout"
  u_compact :: "layout \<Rightarrow> CompactType \<Rightarrow> int \<Rightarrow> layout"
  u_getAllCollisions :: "layout \<Rightarrow> LayoutItem \<Rightarrow> layout"
  u_isEqual :: "layout \<Rightarrow> layout \<Rightarrow> bool"
  u_moveElement ::
    "layout \<Rightarrow> LayoutItem \<Rightarrow> int \<Rightarrow> int \<Rightarrow> bool \<Rightarrow> bool \<Rightarrow> CompactType \<Rightarrow> int \<Rightarrow> layout"
  u_reLayout :: "layout \<Rightarrow> CompactType \<Rightarrow> int \<Rightarrow> layout"
  u_withLayoutItem ::
    "layout \<Rightarrow> string \<Rightarrow> (LayoutItem \<Rightarrow> LayoutItem) \<Rightarrow> layout \<times> LayoutItem option"

text \<open>
  A handler that can raise returns an outcome: the world it returned in, or the error and the
  world as it was when the error was raised (what the handler had already changed stays
  changed).
\<close>

datatype error = TypeError

datatype outcome = Returns world | Throws error world

section \<open>Arrays and state updates\<close>

text \<open>\<open>Array.prototype.findIndex\<close>, with \<open>None\<close> for \<open>-1\<close>.\<close>

fun findIndex :: "('a \<Rightarrow> bool) \<Rightarrow> 'a list \<Rightarrow> nat option" where
  "findIndex P [] = None"
| "findIndex P (a # as) = (if P a then Some 0 else map_option Suc (findIndex P as))"

text \<open>\<open>layouts.splice(index, 1)\<close>.\<close>

definition splice1 :: "nat \<Rightarrow> 'a list \<Rightarrow> 'a list" where
  "splice1 k xs = take k xs @ drop (Suc k) xs"

text \<open>
  Modelled from the spec: \<open>getLayoutItem\<close> of \<open>../utils\<close>, which is not in the sources. An
  item is identified by its \<open>id\<close>, unique within a grid (spec 3); the function is taken to
  find the first element whose \<open>i\<close> is the given one, the way the \<open>findIndex\<close> calls of this
  file look an item up. \<open>getLayoutItem(layouts, i)\<close> returns an element of the array, which
  its callers then mutate; the model returns the place of that element.
\<close>

definition getLayoutItem :: "layout \<Rightarrow> string \<Rightarrow> nat option" where
  "getLayoutItem ls i = findIndex (\<lambda>l. l_i l = i) ls"

text \<open>
  \<open>setState\<close> merges an update into the state of an instance. The handlers are called back
  by the drag-and-drop backend, and a later \<open>this.state\<close> in the same handler reads the
  merged state. An in-place mutation of \<open>this.state.layouts\<close> (\<open>splice\<close>, a property
  written on an element) is the same update of the state. Of the handlers below only
  \<open>onDragEnd\<close> reads, through \<open>resetDraggingState\<close>, a part of the state that it has just
  set: where React batches the updates instead, the placeholder flag is deleted in the
  array that is being replaced, and the restored layouts are the snapshot as it is.
\<close>

definition setState :: "nat \<Rightarrow> (LayoutStates \<Rightarrow> LayoutStates) \<Rightarrow> world \<Rightarrow> world" where
  "setState r f w = w\<lparr>insts := (insts w)(r := (insts w r)\<lparr>state := f (state (insts w r))\<rparr>)\<rparr>"

definition emit :: "event \<Rightarrow> world \<Rightarrow> world" where
  "emit e w = w\<lparr>emitted := emitted w @ [e]\<rparr>"

section \<open>The handlers\<close>

subsection \<open>Construction and props\<close>

text \<open>The decimal numeral a template literal prints for a counter.\<close>

definition digit :: "nat \<Rightarrow> char" where
  "digit d = ''0123456789'' ! d"

fun toString :: "nat \<Rightarrow> string" where
  "toString n = (if n < 10 then [digit n] else toString (n div 10) @ [digit (n mod 10)])"

declare toString.simps [simp del]

text \<open>
  The constructor of an instance at the fresh reference \<open>this\<close>. \<open>props.group\<close> is falsy when it
  is the empty string, the default. The listener the constructor registers for the
  \<open>mounted\<close> event only refreshes \<open>accept\<close> when an instance mounts and is left out.
\<close>

definition constructor :: "utils \<Rightarrow> nat \<Rightarrow> LayoutProps \<Rightarrow> world \<Rightarrow> world" where
  "constructor U this p w =
     (let g = (if p_group p \<noteq> [] then p_group p
               else DEFAULT_GROUP U @ ''_'' @ toString (groupIndex w));
          registry = AList.update g this (groupLayouts w);
          keys = map fst registry @ [DEFAULT_ITEMTYPE U]
      in w\<lparr>insts := (insts w)(this :=
              \<lparr>group = g, props = p,
               state = \<lparr>accept = keys,
                        layouts = u_reLayout U (p_layouts p) (p_compactType p) (p_cols p),
                        oldLayouts = None, placeholder = None,
                        draggingItem = None, prevPosition = None\<rparr>,
               mounted = False\<rparr>),
            groupLayouts := registry,
            groupKeys := keys,
            groupIndex := groupIndex w + 1\<rparr>)"

text \<open>
  \<open>getDerivedStateFromProps\<close> is static and reads the module's \<open>hoveredGroups\<close>. It returns
  the partial state to merge, which has the key \<open>layouts\<close> only, or \<open>null\<close>.
\<close>

definition getDerivedStateFromProps ::
  "utils \<Rightarrow> string list \<Rightarrow> LayoutProps \<Rightarrow> LayoutStates \<Rightarrow> layout option" where
  "getDerivedStateFromProps U hovered p prevState =
     (if hovered \<noteq> [] \<or> placeholder prevState \<noteq> None then None
      else if \<not> u_isEqual U (p_layouts p) (layouts prevState)
        then Some (u_reLayout U (p_layouts p) (p_compactType p) (p_cols p))
      else None)"

text \<open>
  What React does before it renders an instance with the props \<open>p\<close>, new ones or the ones
  it has: it stores them and merges what \<open>getDerivedStateFromProps\<close> returns into the
  state.
\<close>

definition receiveProps :: "utils \<Rightarrow> nat \<Rightarrow> LayoutProps \<Rightarrow> world \<Rightarrow> world" where
  "receiveProps U this p w =
     (let L = insts w this;
          st = (case getDerivedStateFromProps U (hoveredGroups w) p (state L) of
                  None \<Rightarrow> state L
                | Some ls \<Rightarrow> (state L)\<lparr>layouts := ls\<rparr>)
      in w\<lparr>insts := (insts w)(this := L\<lparr>props := p, state := st\<rparr>)\<rparr>)"

definition componentWillUnmount :: "nat \<Rightarrow> world \<Rightarrow> world" where
  "componentWillUnmount this w =
     w\<lparr>groupLayouts := AList.delete (group (insts w this)) (groupLayouts w)\<rparr>"

subsection \<open>Reporting a change\<close>

definition onLayoutMaybeChanged ::
  "utils \<Rightarrow> nat \<Rightarrow> layout \<Rightarrow> layout option \<Rightarrow> world \<Rightarrow> world \<times> bool" where
  "onLayoutMaybeChanged U this newLayouts oldLayouts_arg w =
     (let L = insts w this;
          old = (case oldLayouts_arg of None \<Rightarrow> layouts (state L) | Some ls \<Rightarrow> ls);
          equal = u_isEqual U old newLayouts
      in (if \<not> equal \<and> p_onLayoutChange (props L)
          then emit (LayoutChange this (u_cloneLayouts U newLayouts)) w
          else w,
          equal))"

definition isGroupItem :: "world \<Rightarrow> nat \<Rightarrow> string \<Rightarrow> bool" where
  "isGroupItem w this itemType =
     (itemType = group (insts w this) \<or> map_of (groupLayouts w) itemType \<noteq> None)"

subsection \<open>Releasing an item held by other groups\<close>

definition removeOtherGroupItem :: "utils \<Rightarrow> LayoutItem \<Rightarrow> string \<Rightarrow> world \<Rightarrow> world" where
  "removeOtherGroupItem U layoutItem g w =
     (case map_of (groupLayouts w) g of
        None \<Rightarrow> w
      | Some r \<Rightarrow>
          (let L = insts w r; ls = layouts (state L)
           in case findIndex (\<lambda>l. l_i l = l_i layoutItem) ls of
                None \<Rightarrow> w
              | Some k \<Rightarrow>
                  setState r (\<lambda>s. s\<lparr>layouts := u_compact U (splice1 k ls)
                                                 (p_compactType (props L)) (p_cols (props L)),
                                     draggingItem := None,
                                     prevPosition := None\<rparr>) w))"

definition removeHoverdGroupItem :: "utils \<Rightarrow> nat \<Rightarrow> LayoutItem \<Rightarrow> world \<Rightarrow> world" where
  "removeHoverdGroupItem U this layoutItem w =
     (if length (hoveredGroups w) > 1
      then (foldl (\<lambda>w' g. if g \<noteq> group (insts w this)
                           then removeOtherGroupItem U layoutItem g w' else w')
              w (hoveredGroups w))
           \<lparr>hoveredGroups := [group (insts w this)]\<rparr>
      else w)"

subsection \<open>Dragging\<close>

text \<open>
  \<open>moveItem(layoutItem, offset)\<close> is given an object that its callers have found in, or pushed
  onto, \<open>this.state.layouts\<close>. The model takes the object's value and, as \<open>at\<close>, the place
  where the array holds it, so that \<open>layoutItem.placeholder = true\<close> is written to the array
  too. \<open>position.x === prevPosition?.x && position.y === prevPosition?.y\<close> holds when a
  previous position is recorded and has the same two numbers.
\<close>

definition moveItem ::
  "utils \<Rightarrow> nat \<Rightarrow> LayoutItem \<Rightarrow> nat option \<Rightarrow> XYCoord \<Rightarrow> world \<Rightarrow> world" where
  "moveItem U this layoutItem at offset w =
     (let L = insts w this
      in if \<not> mounted L then w
         else
           (let ls = layouts (state L);
                prev = prevPosition (state L);
                position = u_calcXY U L layoutItem offset;
                item = layoutItem\<lparr>l_placeholder := True\<rparr>;
                ls1 = (case at of None \<Rightarrow> ls | Some k \<Rightarrow> ls[k := item]);
                w1 = setState this (\<lambda>s. s\<lparr>layouts := ls1\<rparr>) w
            in if prev = Some position then w1
               else
                 (let P = props L;
                      newLayouts = u_moveElement U ls1 item (fst position) (snd position) True
                                     (p_preventCollision P) (p_compactType P) (p_cols P)
                  in setState this
                       (\<lambda>s. s\<lparr>draggingItem := Some item,
                               prevPosition := Some position,
                               layouts := u_compact U newLayouts (p_compactType P) (p_cols P)\<rparr>)
                       w1)))"

definition onDragStart :: "utils \<Rightarrow> nat \<Rightarrow> world \<Rightarrow> world" where
  "onDragStart U this w =
     setState this (\<lambda>s. s\<lparr>oldLayouts := Some (u_cloneLayouts U (layouts s))\<rparr>) w"

definition resetDraggingState :: "nat \<Rightarrow> string \<Rightarrow> world \<Rightarrow> world" where
  "resetDraggingState this i w =
     (let ls = layouts (state (insts w this));
          w1 = (case getLayoutItem ls i of
                  None \<Rightarrow> w
                | Some k \<Rightarrow>
                    setState this (\<lambda>s. s\<lparr>layouts := ls[k := (ls ! k)\<lparr>l_placeholder := False\<rparr>]\<rparr>) w)
      in setState this
           (\<lambda>s. s\<lparr>draggingItem := None, prevPosition := None, oldLayouts := None\<rparr>)
           (w1\<lparr>hoveredGroups := []\<rparr>))"

text \<open>
  \<open>onDrop\<close> reads \<open>draggingItem.i\<close> and deletes a property of \<open>layouts[index]\<close> with no check.
  When no dragging item is recorded, \<open>draggingItem.i\<close> raises in the callback of \<open>findIndex\<close>
  (or, on an empty array, \<open>index\<close> is \<open>-1\<close>); when the index is \<open>-1\<close>, \<open>layouts[-1]\<close> is
  \<open>undefined\<close> and \<open>delete layoutItem.placeholder\<close> raises a TypeError. Nothing has been
  written at that point.
\<close>

definition onDrop :: "utils \<Rightarrow> nat \<Rightarrow> DragItem \<Rightarrow> string \<Rightarrow> world \<Rightarrow> outcome" where
  "onDrop U this dragItem itemType w =
     (let L = insts w this; ls = layouts (state L); old = oldLayouts (state L)
      in case draggingItem (state L) of
           None \<Rightarrow> Throws TypeError w
         | Some d \<Rightarrow>
             (case findIndex (\<lambda>l. l_i l = l_i d) ls of
                None \<Rightarrow> Throws TypeError w
              | Some k \<Rightarrow>
                  (let layoutItem = (ls ! k)\<lparr>l_placeholder := False\<rparr>;
                       ls1 = ls[k := layoutItem];
                       w1 = setState this (\<lambda>s. s\<lparr>layouts := ls1\<rparr>) w;
                       w2 = (if itemType = group L
                             then fst (onLayoutMaybeChanged U this ls1 old w1)
                             else
                               (let sourceLayout = map_of (groupLayouts w1) itemType;
                                    w1' = setState this (\<lambda>s. s\<lparr>layouts := splice1 k ls1\<rparr>) w1
                                in case sourceLayout of
                                     None \<Rightarrow> w1'
                                   | Some r \<Rightarrow>
                                       fst (onLayoutMaybeChanged U r
                                              (layouts (state (insts w1' r)))
                                              (oldLayouts (state (insts w1' r))) w1')));
                       w3 = resetDraggingState this (l_i d) w2
                   in Returns
                        (if p_onDrop (props L)
                         then emit (Drop this (layouts (state (insts w3 this))) layoutItem
                                      dragItem itemType (group L)) w3
                         else w3))))"

text \<open>
  \<open>onDragEnd\<close> stores \<open>this.state.oldLayouts\<close> as the layouts. With no snapshot that value is
  \<open>null\<close>, which \<open>resetDraggingState\<close> hands to \<open>getLayoutItem\<close>: the model raises there.
\<close>

definition onDragEnd :: "nat \<Rightarrow> LayoutItem \<Rightarrow> bool \<Rightarrow> string \<Rightarrow> world \<Rightarrow> outcome" where
  "onDragEnd this item didDrop itemType w =
     (if didDrop then Returns w
      else if isGroupItem w this itemType
      then (case oldLayouts (state (insts w this)) of
              None \<Rightarrow> Throws TypeError w
            | Some old \<Rightarrow>
                Returns (resetDraggingState this (l_i item)
                           (setState this (\<lambda>s. s\<lparr>layouts := old\<rparr>) w)))
      else Returns w)"

text \<open>
  \<open>onCardItemDragEnd\<close> is subscribed to the \<open>dragEnd.cardItem\<close> event by every mounted
  instance. \<open>cloneLayouts\<close> of a missing snapshot is taken to raise, after the \<open>splice\<close>.
\<close>

definition onCardItemDragEnd ::
  "utils \<Rightarrow> nat \<Rightarrow> DragItem \<Rightarrow> bool \<Rightarrow> string \<Rightarrow> world \<Rightarrow> outcome" where
  "onCardItemDragEnd U this item didDrop itemType w =
     (let L = insts w this; ls = layouts (state L)
      in case draggingItem (state L) of
           None \<Rightarrow> Returns w
         | Some d \<Rightarrow>
             if \<not> didDrop
             then (case findIndex (\<lambda>l. l_i l = l_i d) ls of
                     None \<Rightarrow> Returns w
                   | Some k \<Rightarrow>
                       (case oldLayouts (state L) of
                          None \<Rightarrow>
                            Throws TypeError (setState this (\<lambda>s. s\<lparr>layouts := splice1 k ls\<rparr>) w)
                        | Some old \<Rightarrow>
                            Returns (setState this
                                       (\<lambda>s. s\<lparr>draggingItem := None,
                                               prevPosition := None,
                                               layouts := u_cloneLayouts U old\<rparr>) w)))
             else onDrop U this item itemType w)"

subsection \<open>Resizing\<close>

text \<open>
  The loop of \<open>onResize\<close> over the collisions: the least coordinate \<open>f\<close> among the items whose
  coordinate is greater than \<open>b\<close>, starting from \<open>Infinity\<close> (here \<open>None\<close>).
\<close>

definition least :: "(LayoutItem \<Rightarrow> int) \<Rightarrow> int \<Rightarrow> layout \<Rightarrow> int option" where
  "least f b cs =
     foldl (\<lambda>acc c. if f c > b
                     then Some (case acc of None \<Rightarrow> f c | Some m \<Rightarrow> min m (f c))
                     else acc)
       None cs"

text \<open>
  The function \<open>onResize\<close> passes to \<open>withLayoutItem\<close>. \<open>hasCollisions\<close> stays \<open>undefined\<close>
  without \<open>preventCollision\<close>, and then the requested size is stored.
\<close>

definition onResize_cb ::
  "utils \<Rightarrow> layout \<Rightarrow> bool \<Rightarrow> int \<Rightarrow> int \<Rightarrow> LayoutItem \<Rightarrow> LayoutItem" where
  "onResize_cb U ls preventCollision w h l =
     (let collisions = filter (\<lambda>layoutItem. l_i layoutItem \<noteq> l_i l)
                         (u_getAllCollisions U ls (l\<lparr>l_w := w, l_h := h\<rparr>));
          hasCollisions = (preventCollision \<and> collisions \<noteq> [])
      in if hasCollisions
         then (let l1 = (case least l_x (l_x l) collisions of
                           None \<Rightarrow> l
                         | Some leastX \<Rightarrow> l\<lparr>l_w := leastX - l_x l\<rparr>)
               in case least l_y (l_y l) collisions of
                    None \<Rightarrow> l1
                  | Some leastY \<Rightarrow> l1\<lparr>l_h := leastY - l_y l\<rparr>)
         else l\<lparr>l_w := w, l_h := h\<rparr>)"

definition onResize :: "utils \<Rightarrow> nat \<Rightarrow> LayoutItem \<Rightarrow> int \<Rightarrow> int \<Rightarrow> world \<Rightarrow> world" where
  "onResize U this item w h wd =
     (let L = insts wd this; ls = layouts (state L); P = props L
      in case u_withLayoutItem U ls (l_i item) (onResize_cb U ls (p_preventCollision P) w h) of
           (newLayouts, None) \<Rightarrow> wd
         | (newLayouts, Some l) \<Rightarrow>
             setState this
               (\<lambda>s. s\<lparr>layouts := u_compact U newLayouts (p_compactType P) (p_cols P),
                       placeholder := Some \<lparr>l_i = l_i item, l_x = l_x l, l_y = l_y l,
                                            l_w = l_w l, l_h = l_h l, l_static = True,
                                            l_placeholder = False, l_group = None\<rparr>\<rparr>)
               wd)"

definition onResizeStop :: "utils \<Rightarrow> nat \<Rightarrow> world \<Rightarrow> world" where
  "onResizeStop U this w =
     (let L = insts w this; P = props L;
          old = oldLayouts (state L);
          newLayouts = u_compact U (layouts (state L)) (p_compactType P) (p_cols P);
          w1 = setState this (\<lambda>s. s\<lparr>placeholder := None, oldLayouts := None\<rparr>) w;
          w2 = fst (onLayoutMaybeChanged U this newLayouts old w1)
      in if p_onResizeStop P then emit (ResizeStop this newLayouts) w2 else w2)"

section \<open>The compactor, from its description\<close>

text \<open>
  Modelled from the spec: \<open>collides\<close> and \<open>getAllCollisions\<close> of \<open>../utils\<close>, which is not in
  the sources (spec 4.2). Two items collide when their identifiers differ and the intervals
  \<open>[x, x + w)\<close> and \<open>[y, y + h)\<close> of the one meet those of the other.
\<close>

definition meets :: "int \<Rightarrow> int \<Rightarrow> int \<Rightarrow> int \<Rightarrow> bool" where
  "meets a m b n = (max a b < min (a + m) (b + n))"

definition collides :: "LayoutItem \<Rightarrow> LayoutItem \<Rightarrow> bool" where
  "collides a b =
     (l_i a \<noteq> l_i b \<and> meets (l_x a) (l_w a) (l_x b) (l_w b) \<and> meets (l_y a) (l_h a) (l_y b) (l_h b))"

definition getAllCollisions :: "layout \<Rightarrow> LayoutItem \<Rightarrow> layout" where
  "getAllCollisions ls item = filter (\<lambda>l. collides l item) ls"

text \<open>
  Modelled from the spec: \<open>compact\<close> of \<open>../utils\<close>, which is not in the sources (spec 4.3).
  Vertical compaction moves along \<open>y\<close> and horizontal compaction is its mirror image along
  \<open>x\<close>: \<open>pos\<close> is the coordinate that moves, \<open>setPos\<close> writes it, and \<open>sortKey\<close> orders the items
  by \<open>(y, x)\<close> or by \<open>(x, y)\<close>; the place of an item in the list is the last component of
  the key, so that items with the same coordinates keep their order.
\<close>

definition pos :: "CompactType \<Rightarrow> LayoutItem \<Rightarrow> int" where
  "pos t l = (case t of Horizontal \<Rightarrow> l_x l | _ \<Rightarrow> l_y l)"

definition setPos :: "CompactType \<Rightarrow> int \<Rightarrow> LayoutItem \<Rightarrow> LayoutItem" where
  "setPos t v l = (case t of Horizontal \<Rightarrow> l\<lparr>l_x := v\<rparr> | _ \<Rightarrow> l\<lparr>l_y := v\<rparr>)"

definition sortKey :: "CompactType \<Rightarrow> nat \<times> LayoutItem \<Rightarrow> int \<times> int \<times> nat" where
  "sortKey t e = (case t of Horizontal \<Rightarrow> (l_x (snd e), l_y (snd e), fst e)
                          | _ \<Rightarrow> (l_y (snd e), l_x (snd e), fst e))"

text \<open>
  Modelled from the spec: step 3 of \<open>compact\<close>. The item slides one cell at a time while its
  coordinate is positive and the rectangle one cell further collides with no item placed
  before it.
\<close>

function slide :: "CompactType \<Rightarrow> layout \<Rightarrow> LayoutItem \<Rightarrow> LayoutItem" where
  "slide t placed l =
     (if 0 < pos t l \<and> getAllCollisions placed (setPos t (pos t l - 1) l) = []
      then slide t placed (setPos t (pos t l - 1) l)
      else l)"
  by pat_completeness auto
termination
  by (relation "measure (\<lambda>(t, placed, l). nat (pos t l))")
     (auto simp: pos_def setPos_def split: CompactType.splits)

declare slide.simps [simp del]

text \<open>
  Modelled from the spec: step 3 of \<open>compact\<close>, for the horizontal compaction, which clamps
  \<open>x\<close> into \<open>[0, cols - w]\<close> again; here, once the item has slid.
\<close>

definition clampX :: "int \<Rightarrow> LayoutItem \<Rightarrow> LayoutItem" where
  "clampX cols l = l\<lparr>l_x := max 0 (min (l_x l) (cols - l_w l))\<rparr>"

definition compactItem :: "CompactType \<Rightarrow> int \<Rightarrow> layout \<Rightarrow> LayoutItem \<Rightarrow> LayoutItem" where
  "compactItem t cols placed l =
     (case t of Horizontal \<Rightarrow> clampX cols (slide t placed l) | _ \<Rightarrow> slide t placed l)"

text \<open>
  Modelled from the spec: steps 3 and 4 of \<open>compact\<close>. The items in sorted order, each moved
  against the static items and the items moved before it.
\<close>

fun place ::
  "(layout \<Rightarrow> LayoutItem \<Rightarrow> LayoutItem) \<Rightarrow> layout \<Rightarrow> (nat \<times> LayoutItem) list \<Rightarrow> (nat \<times> LayoutItem) list"
  where
  "place mv placed [] = []"
| "place mv placed (e # rest) =
     (fst e, mv placed (snd e)) # place mv (placed @ [mv placed (snd e)]) rest"

text \<open>
  Modelled from the spec: \<open>compact\<close>, steps 1 to 5. The result lists the items in the order
  of the argument, each static item as it was and each other item as it was moved: only \<open>x\<close>
  and \<open>y\<close> change.
\<close>

definition compact :: "layout \<Rightarrow> CompactType \<Rightarrow> int \<Rightarrow> layout" where
  "compact ls t cols =
     (case t of
        NoCompact \<Rightarrow> ls
      | _ \<Rightarrow>
          (let statics = filter l_static ls;
               sorted = sort_key (sortKey t) (filter (\<lambda>e. \<not> l_static (snd e)) (enumerate 0 ls));
               moved = place (compactItem t cols) statics sorted
           in map (\<lambda>e. case map_of moved (fst e) of None \<Rightarrow> snd e | Some l \<Rightarrow> l)
                (enumerate 0 ls)))"

section \<open>Examples and measures\<close>

text \<open>What the cancellation of an interaction has to restore of an item.\<close>

definition geometry :: "LayoutItem \<Rightarrow> string \<times> int \<times> int \<times> int \<times> int" where
  "geometry l = (l_i l, l_x l, l_y l, l_w l, l_h l)"

text \<open>
  An instance of the parameters, to run the handlers on examples: \<open>compact\<close> and
  \<open>getAllCollisions\<close> as above, a copy and an equality of values, and plain stand-ins for
  the rest.
\<close>

definition example_utils :: utils where
  "example_utils =
     \<lparr>DEFAULT_GROUP = ''layout'', DEFAULT_ITEMTYPE = ''card'',
      u_calcXY = (\<lambda>L l offset. offset),
      u_cloneLayouts = (\<lambda>ls. ls),
      u_compact = compact,
      u_getAllCollisions = getAllCollisions,
      u_isEqual = (\<lambda>a b. a = b),
      u_moveElement = (\<lambda>ls l x y isUserAction preventCollision t cols.
                         map (\<lambda>m. if l_i m = l_i l then m\<lparr>l_x := x, l_y := y\<rparr> else m) ls),
      u_reLayout = compact,
      u_withLayoutItem = (\<lambda>ls i cb. case getLayoutItem ls i of
                                        None \<Rightarrow> (ls, None)
                                      | Some k \<Rightarrow> (ls[k := cb (ls ! k)], Some (cb (ls ! k))))\<rparr>"

definition mkItem :: "string \<Rightarrow> int \<Rightarrow> int \<Rightarrow> int \<Rightarrow> int \<Rightarrow> LayoutItem" where
  "mkItem i x y w h =
     \<lparr>l_i = i, l_x = x, l_y = y, l_w = w, l_h = h,
      l_static = False, l_placeholder = False, l_group = None\<rparr>"

definition example_props :: "string \<Rightarrow> layout \<Rightarrow> LayoutProps" where
  "example_props g ls =
     \<lparr>p_group = g, p_layouts = ls, p_compactType = NoCompact, p_cols = 12,
      p_preventCollision = True, p_onLayoutChange = True, p_onDrop = True,
      p_onResizeStop = True\<rparr>"

definition example_layout ::
  "string \<Rightarrow> layout \<Rightarrow> layout option \<Rightarrow> LayoutItem option \<Rightarrow> Layout" where
  "example_layout g ls old dragging =
     \<lparr>group = g, props = example_props g ls,
      state = \<lparr>accept = [], layouts = ls, oldLayouts = old, placeholder = None,
               draggingItem = dragging, prevPosition = Some (0, 0)\<rparr>,
      mounted = True\<rparr>"

text \<open>Two registered instances, at the references 0 and 1, and the groups marked hovered.\<close>

definition example_world :: "Layout \<Rightarrow> Layout \<Rightarrow> string list \<Rightarrow> world" where
  "example_world A B hovered =
     \<lparr>insts = (\<lambda>r. if r = 0 then A else B),
      groupLayouts = [(group A, 0), (group B, 1)],
      groupKeys = [group A, group B, ''card''],
      groupIndex = 2, hoveredGroups = hovered, emitted = []\<rparr>"

text \<open>
  For the proofs about the compactor: the extent of an item along the axis of the compaction,
  its coordinate on the other axis, and that a horizontal compaction finds the item within
  the columns (where the clamp changes nothing).
\<close>

definition len :: "CompactType \<Rightarrow> LayoutItem \<Rightarrow> int" where
  "len t l = (case t of Horizontal \<Rightarrow> l_w l | _ \<Rightarrow> l_h l)"

definition opos :: "CompactType \<Rightarrow> LayoutItem \<Rightarrow> int" where
  "opos t l = (case t of Horizontal \<Rightarrow> l_y l | _ \<Rightarrow> l_x l)"

definition inside :: "CompactType \<Rightarrow> int \<Rightarrow> LayoutItem \<Rightarrow> bool" where
  "inside t cols l = (t = Horizontal \<longrightarrow> 0 \<le> l_x l \<and> l_x l + l_w l \<le> cols)"

text \<open>
  A host that constructs instances one after the other: the props of each instance and the
  group it was given.
\<close>

fun assigned :: "utils \<Rightarrow> (nat \<times> LayoutProps) list \<Rightarrow> world \<Rightarrow> (LayoutProps \<times> string) list" where
  "assigned U [] w = []"
| "assigned U (call # calls) w =
     (snd call, group (insts (constructor U (fst call) (snd call) w) (fst call)))
     # assigned U calls (constructor U (fst call) (snd call) w)"

section \<open>Properties\<close>

subsection \<open>Arrays\<close>

lemma findIndex_Some:
  "findIndex P xs = Some k \<Longrightarrow> k < length xs \<and> P (xs ! k) \<and> (\<forall>j<k. \<not> P (xs ! j))"
proof (induction xs arbitrary: k)
  case Nil
  then show ?case by simp
next
  case (Cons a xs)
  show ?case
  proof (cases "P a")
    case True
    with Cons.prems show ?thesis by simp
  next
    case False
    with Cons.prems obtain k' where k': "findIndex P xs = Some k'" "k = Suc k'"
      by auto
    from Cons.IH [OF k'(1)] False k'(2) show ?thesis
      by (auto simp: nth_Cons split: nat.splits)
  qed
qed

lemma findIndex_None: "findIndex P xs = None \<longleftrightarrow> (\<forall>x\<in>set xs. \<not> P x)"
  by (induction xs) auto

lemma map_geometry_clear:
  "map geometry (ls[k := (ls ! k)\<lparr>l_placeholder := False\<rparr>]) = map geometry ls"
  by (cases "k < length ls") (auto intro!: nth_equalityI simp: nth_list_update geometry_def)

lemma clear_noop:
  "\<forall>l\<in>set ls. \<not> l_placeholder l \<Longrightarrow> k < length ls \<Longrightarrow>
   ls[k := (ls ! k)\<lparr>l_placeholder := False\<rparr>] = ls"
  by (rule nth_equalityI) (auto simp: nth_list_update)

lemma findIndex_clear:
  "findIndex (\<lambda>l. l_i l = i) (ls[k := (ls ! k)\<lparr>l_placeholder := False\<rparr>]) =
   findIndex (\<lambda>l. l_i l = i) ls"
proof (induction ls arbitrary: k)
  case Nil
  then show ?case by simp
next
  case (Cons a ls)
  then show ?case by (cases k) auto
qed

lemma clear_twice:
  "ls[k := (ls[k := (ls ! k)\<lparr>l_placeholder := False\<rparr>] ! k)\<lparr>l_placeholder := False\<rparr>]
   = ls[k := (ls ! k)\<lparr>l_placeholder := False\<rparr>]"
  by (cases "k < length ls") (simp_all add: list_update_beyond)

subsection \<open>What an update leaves alone\<close>

lemma hoveredGroups_setState [simp]: "hoveredGroups (setState r f w) = hoveredGroups w"
  by (simp add: setState_def)

lemma hoveredGroups_emit [simp]: "hoveredGroups (emit e w) = hoveredGroups w"
  by (simp add: emit_def)

lemma hoveredGroups_onLayoutMaybeChanged [simp]:
  "hoveredGroups (fst (onLayoutMaybeChanged U r new old w)) = hoveredGroups w"
  by (simp add: onLayoutMaybeChanged_def Let_def)

lemma hoveredGroups_resetDraggingState [simp]:
  "hoveredGroups (resetDraggingState this i w) = []"
  by (simp add: resetDraggingState_def Let_def)

lemma emitted_setState [simp]: "emitted (setState r f w) = emitted w"
  by (simp add: setState_def)

lemma emitted_resetDraggingState [simp]: "emitted (resetDraggingState this i w) = emitted w"
  by (simp add: resetDraggingState_def Let_def split: option.splits)

lemma insts_emit [simp]: "insts (emit e w) = insts w"
  by (simp add: emit_def)

lemma insts_onLayoutMaybeChanged [simp]:
  "insts (fst (onLayoutMaybeChanged U r new old w)) = insts w"
  by (simp add: onLayoutMaybeChanged_def Let_def)

lemma state_setState_same [simp]: "state (insts (setState r f w) r) = f (state (insts w r))"
  by (simp add: setState_def)

lemma state_setState_other [simp]:
  "q \<noteq> r \<Longrightarrow> state (insts (setState r f w) q) = state (insts w q)"
  by (simp add: setState_def)

lemma props_setState [simp]: "props (insts (setState r f w) q) = props (insts w q)"
  by (simp add: setState_def)

lemma group_setState [simp]: "group (insts (setState r f w) q) = group (insts w q)"
  by (simp add: setState_def)

lemma groupLayouts_setState [simp]: "groupLayouts (setState r f w) = groupLayouts w"
  by (simp add: setState_def)

subsection \<open>Cancelling an interaction\<close>

lemma layouts_resetDraggingState:
  "layouts (state (insts (resetDraggingState this i w) this)) =
     (case getLayoutItem (layouts (state (insts w this))) i of
        None \<Rightarrow> layouts (state (insts w this))
      | Some k \<Rightarrow> (layouts (state (insts w this)))
                    [k := (layouts (state (insts w this)) ! k)\<lparr>l_placeholder := False\<rparr>])"
  by (simp add: resetDraggingState_def setState_def Let_def split: option.splits)

lemma onDragEnd_cancel:
  assumes snap: "oldLayouts (state (insts w this)) = Some old"
    and own: "isGroupItem w this itemType"
  shows "\<exists>w'. onDragEnd this item False itemType w = Returns w' \<and>
              map geometry (layouts (state (insts w' this))) = map geometry old \<and>
              ((\<forall>l\<in>set old. \<not> l_placeholder l) \<longrightarrow> layouts (state (insts w' this)) = old)"
proof -
  let ?w1 = "setState this (\<lambda>s. s\<lparr>layouts := old\<rparr>) w"
  let ?w' = "resetDraggingState this (l_i item) ?w1"
  have run: "onDragEnd this item False itemType w = Returns ?w'"
    using own snap by (simp add: onDragEnd_def)
  have l1: "layouts (state (insts ?w1 this)) = old"
    by (simp add: setState_def)
  have geo: "map geometry (layouts (state (insts ?w' this))) = map geometry old"
    unfolding layouts_resetDraggingState l1
    by (simp add: map_geometry_clear split: option.splits)
  have same: "layouts (state (insts ?w' this)) = old" if "\<forall>l\<in>set old. \<not> l_placeholder l"
    unfolding layouts_resetDraggingState l1
    using that
    by (auto simp: getLayoutItem_def clear_noop dest: findIndex_Some split: option.splits)
  from run geo same show ?thesis by blast
qed

lemma onCardItemDragEnd_cancel:
  assumes snap: "oldLayouts (state (insts w this)) = Some old"
    and drag: "draggingItem (state (insts w this)) = Some d"
    and found: "findIndex (\<lambda>l. l_i l = l_i d) (layouts (state (insts w this))) = Some k"
  shows "\<exists>w'. onCardItemDragEnd U this item False itemType w = Returns w' \<and>
              layouts (state (insts w' this)) = u_cloneLayouts U old"
proof -
  let ?w' = "setState this (\<lambda>s. s\<lparr>draggingItem := None, prevPosition := None,
                                   layouts := u_cloneLayouts U old\<rparr>) w"
  have "onCardItemDragEnd U this item False itemType w = Returns ?w'"
    using snap drag found by (simp add: onCardItemDragEnd_def Let_def)
  moreover have "layouts (state (insts ?w' this)) = u_cloneLayouts U old"
    by (simp add: setState_def)
  ultimately show ?thesis by blast
qed

lemma moveItem_frame:
  "oldLayouts (state (insts (moveItem U this li at offset w) this)) =
     oldLayouts (state (insts w this)) \<and>
   groupLayouts (moveItem U this li at offset w) = groupLayouts w \<and>
   group (insts (moveItem U this li at offset w) q) = group (insts w q)"
  by (simp add: moveItem_def Let_def)

lemma moves_frame:
  "oldLayouts (state (insts
      (foldl (\<lambda>w tick. moveItem U this (fst tick) (fst (snd tick)) (snd (snd tick)) w) w ticks)
      this)) = oldLayouts (state (insts w this)) \<and>
   groupLayouts
      (foldl (\<lambda>w tick. moveItem U this (fst tick) (fst (snd tick)) (snd (snd tick)) w) w ticks)
     = groupLayouts w \<and>
   group (insts
      (foldl (\<lambda>w tick. moveItem U this (fst tick) (fst (snd tick)) (snd (snd tick)) w) w ticks)
      this) = group (insts w this)"
proof (induction ticks arbitrary: w)
  case Nil
  then show ?case by simp
next
  case (Cons tick ticks)
  from Cons.IH [of "moveItem U this (fst tick) (fst (snd tick)) (snd (snd tick)) w"]
  show ?case by (simp add: moveItem_frame)
qed

lemma drag_move_cancel:
  assumes own: "isGroupItem w this itemType"
    and copy: "\<forall>ls. map geometry (u_cloneLayouts U ls) = map geometry ls"
  shows "\<exists>w'. onDragEnd this item False itemType
                (foldl (\<lambda>w tick. moveItem U this (fst tick) (fst (snd tick)) (snd (snd tick)) w)
                   (onDragStart U this w) ticks) = Returns w' \<and>
              map geometry (layouts (state (insts w' this))) =
                map geometry (layouts (state (insts w this)))"
proof -
  let ?w1 = "onDragStart U this w"
  let ?wn = "foldl (\<lambda>w tick. moveItem U this (fst tick) (fst (snd tick)) (snd (snd tick)) w)
               ?w1 ticks"
  have start: "oldLayouts (state (insts ?w1 this)) =
                 Some (u_cloneLayouts U (layouts (state (insts w this))))"
    "groupLayouts ?w1 = groupLayouts w" "group (insts ?w1 this) = group (insts w this)"
    by (simp_all add: onDragStart_def)
  have snap: "oldLayouts (state (insts ?wn this)) =
                Some (u_cloneLayouts U (layouts (state (insts w this))))"
    using moves_frame [of U this ?w1 ticks] start(1) by simp
  have "isGroupItem ?wn this itemType"
    using own moves_frame [of U this ?w1 ticks] start(2,3) by (simp add: isGroupItem_def)
  from onDragEnd_cancel [OF snap this, of item] copy show ?thesis
    by auto
qed

text \<open>
  C1. A layout holds a snapshot \<open>old\<close> in \<open>oldLayouts\<close>. When \<open>onDragEnd\<close> is called with
  \<open>didDrop = false\<close> for a group item, it returns and the layouts have the identifiers, the
  \<open>x\<close>, \<open>y\<close>, \<open>w\<close>, \<open>h\<close> and the order of \<open>old\<close>; they are \<open>old\<close> itself when no item of the
  snapshot carries the placeholder flag (\<open>resetDraggingState\<close> deletes the flag of the dragged
  item). When \<open>onCardItemDragEnd\<close> is called with \<open>didDrop = false\<close> and the recorded dragging
  item is found in the layouts, it returns and the layouts are \<open>cloneLayouts(old)\<close>, which
  has the geometry of \<open>old\<close> whenever \<open>cloneLayouts\<close> keeps the geometry of its argument.
  For a whole interaction, with such a \<open>cloneLayouts\<close>: after \<open>onDragStart\<close> in a world \<open>v\<close>
  and any number of \<open>moveItem\<close> ticks, of any items to any offsets, \<open>onDragEnd\<close> without a
  drop gives the layouts the geometry they had in \<open>v\<close>.
\<close>

theorem cancel_restores_snapshot:
  assumes snap: "oldLayouts (state (insts w this)) = Some old"
  shows "(isGroupItem w this itemType \<longrightarrow>
            (\<exists>w'. onDragEnd this item False itemType w = Returns w' \<and>
                  map geometry (layouts (state (insts w' this))) = map geometry old \<and>
                  ((\<forall>l\<in>set old. \<not> l_placeholder l) \<longrightarrow>
                     layouts (state (insts w' this)) = old))) \<and>
         (\<forall>d k. draggingItem (state (insts w this)) = Some d \<and>
                findIndex (\<lambda>l. l_i l = l_i d) (layouts (state (insts w this))) = Some k \<longrightarrow>
            (\<exists>w'. onCardItemDragEnd U this item False itemType w = Returns w' \<and>
                  layouts (state (insts w' this)) = u_cloneLayouts U old \<and>
                  ((\<forall>ls. map geometry (u_cloneLayouts U ls) = map geometry ls) \<longrightarrow>
                     map geometry (layouts (state (insts w' this))) = map geometry old))) \<and>
         (\<forall>v ticks. isGroupItem v this itemType \<and>
                    (\<forall>ls. map geometry (u_cloneLayouts U ls) = map geometry ls) \<longrightarrow>
            (\<exists>w'. onDragEnd this item False itemType
                    (foldl (\<lambda>w tick. moveItem U this (fst tick) (fst (snd tick))
                                        (snd (snd tick)) w)
                       (onDragStart U this v) ticks) = Returns w' \<and>
                  map geometry (layouts (state (insts w' this))) =
                    map geometry (layouts (state (insts v this)))))"
proof (intro conjI impI allI)
  assume "isGroupItem w this itemType"
  with snap
  show "\<exists>w'. onDragEnd this item False itemType w = Returns w' \<and>
             map geometry (layouts (state (insts w' this))) = map geometry old \<and>
             ((\<forall>l\<in>set old. \<not> l_placeholder l) \<longrightarrow> layouts (state (insts w' this)) = old)"
    by (rule onDragEnd_cancel)
next
  fix d k
  assume "draggingItem (state (insts w this)) = Some d \<and>
          findIndex (\<lambda>l. l_i l = l_i d) (layouts (state (insts w this))) = Some k"
  with onCardItemDragEnd_cancel [OF snap, of d k U item itemType]
  show "\<exists>w'. onCardItemDragEnd U this item False itemType w = Returns w' \<and>
             layouts (state (insts w' this)) = u_cloneLayouts U old \<and>
             ((\<forall>ls. map geometry (u_cloneLayouts U ls) = map geometry ls) \<longrightarrow>
                map geometry (layouts (state (insts w' this))) = map geometry old)"
    by auto
next
  fix v ticks
  assume "isGroupItem v this itemType \<and>
          (\<forall>ls. map geometry (u_cloneLayouts U ls) = map geometry ls)"
  then show "\<exists>w'. onDragEnd this item False itemType
                    (foldl (\<lambda>w tick. moveItem U this (fst tick) (fst (snd tick))
                                        (snd (snd tick)) w)
                       (onDragStart U this v) ticks) = Returns w' \<and>
                  map geometry (layouts (state (insts w' this))) =
                    map geometry (layouts (state (insts v this)))"
    using drag_move_cancel [of v this itemType U item ticks] by blast
qed

text \<open>
  An item dragged from \<open>(0, 0)\<close> to \<open>(3, 4)\<close>, which pushed its neighbour down: both ways of
  cancelling give the snapshot back. And a drag of item \<open>1\<close> over three cells, cancelled.
\<close>

theorem cancel_restores_snapshot_witness:
  "oldLayouts (state (insts
      (example_world
         (example_layout ''a''
            [(mkItem ''1'' 3 4 2 1)\<lparr>l_placeholder := True\<rparr>, mkItem ''2'' 3 5 1 1]
            (Some [mkItem ''1'' 0 0 2 1, mkItem ''2'' 1 1 1 1])
            (Some (mkItem ''1'' 3 4 2 1)))
         (example_layout ''b'' [] None None) [''a'']) 0))
     = Some [mkItem ''1'' 0 0 2 1, mkItem ''2'' 1 1 1 1] \<and>
   (\<exists>w'. onDragEnd 0 (mkItem ''1'' 0 0 2 1) False ''a''
           (example_world
              (example_layout ''a''
                 [(mkItem ''1'' 3 4 2 1)\<lparr>l_placeholder := True\<rparr>, mkItem ''2'' 3 5 1 1]
                 (Some [mkItem ''1'' 0 0 2 1, mkItem ''2'' 1 1 1 1])
                 (Some (mkItem ''1'' 3 4 2 1)))
              (example_layout ''b'' [] None None) [''a'']) = Returns w' \<and>
         layouts (state (insts w' 0)) = [mkItem ''1'' 0 0 2 1, mkItem ''2'' 1 1 1 1]) \<and>
   (\<exists>w'. onCardItemDragEnd example_utils 0 (mkItem ''1'' 0 0 2 1) False ''card''
           (example_world
              (example_layout ''a''
                 [(mkItem ''1'' 3 4 2 1)\<lparr>l_placeholder := True\<rparr>, mkItem ''2'' 3 5 1 1]
                 (Some [mkItem ''1'' 0 0 2 1, mkItem ''2'' 1 1 1 1])
                 (Some (mkItem ''1'' 3 4 2 1)))
              (example_layout ''b'' [] None None) [''a'']) = Returns w' \<and>
         layouts (state (insts w' 0)) = [mkItem ''1'' 0 0 2 1, mkItem ''2'' 1 1 1 1]) \<and>
   (\<exists>w'. onDragEnd 0 (mkItem ''1'' 0 0 2 1) False ''a''
           (foldl (\<lambda>w tick. moveItem example_utils 0 (fst tick) (fst (snd tick))
                               (snd (snd tick)) w)
              (onDragStart example_utils 0
                 (example_world
                    (example_layout ''a'' [mkItem ''1'' 0 0 2 1, mkItem ''2'' 1 1 1 1] None None)
                    (example_layout ''b'' [] None None) []))
              [(mkItem ''1'' 0 0 2 1, Some 0, (1, 1)),
               (mkItem ''1'' 1 1 2 1, Some 0, (3, 4)),
               (mkItem ''1'' 3 4 2 1, Some 0, (2, 0))]) = Returns w' \<and>
         map geometry (layouts (state (insts w' 0))) =
           map geometry [mkItem ''1'' 0 0 2 1, mkItem ''2'' 1 1 1 1])"
proof -
  let ?old = "[mkItem ''1'' 0 0 2 1, mkItem ''2'' 1 1 1 1]"
  let ?d = "mkItem ''1'' 3 4 2 1"
  let ?w = "example_world
              (example_layout ''a''
                 [(mkItem ''1'' 3 4 2 1)\<lparr>l_placeholder := True\<rparr>, mkItem ''2'' 3 5 1 1]
                 (Some ?old) (Some ?d))
              (example_layout ''b'' [] None None) [''a'']"
  let ?v = "example_world (example_layout ''a'' ?old None None)
              (example_layout ''b'' [] None None) []"
  let ?ticks = "[(mkItem ''1'' 0 0 2 1, Some 0, (1, 1)),
                 (mkItem ''1'' 1 1 2 1, Some 0, (3, 4)),
                 (mkItem ''1'' 3 4 2 1, Some (0::nat), (2::int, 0::int))]"
  have snap: "oldLayouts (state (insts ?w 0)) = Some ?old"
    by (simp add: example_world_def example_layout_def)
  have grp: "isGroupItem ?w 0 ''a''" "isGroupItem ?v 0 ''a''"
    by (simp_all add: isGroupItem_def example_world_def example_layout_def)
  have clean: "\<forall>l\<in>set ?old. \<not> l_placeholder l"
    by (simp add: mkItem_def)
  have drag: "draggingItem (state (insts ?w 0)) = Some ?d \<and>
              findIndex (\<lambda>l. l_i l = l_i ?d) (layouts (state (insts ?w 0))) = Some 0"
    by (simp add: example_world_def example_layout_def mkItem_def)
  have copy: "\<forall>ls. map geometry (u_cloneLayouts example_utils ls) = map geometry ls"
    "u_cloneLayouts example_utils ?old = ?old"
    by (simp_all add: example_utils_def)
  have start: "layouts (state (insts ?v 0)) = ?old"
    by (simp add: example_world_def example_layout_def)
  note at_a = cancel_restores_snapshot
                [OF snap, where itemType = "''a''" and item = "mkItem ''1'' 0 0 2 1"
                   and U = example_utils]
  note at_card = cancel_restores_snapshot
                   [OF snap, where itemType = "''card''" and item = "mkItem ''1'' 0 0 2 1"
                      and U = example_utils]
  from at_a [THEN conjunct1] grp(1) clean
  have a: "\<exists>w'. onDragEnd 0 (mkItem ''1'' 0 0 2 1) False ''a'' ?w = Returns w' \<and>
                layouts (state (insts w' 0)) = ?old"
    by blast
  from at_card [THEN conjunct2, THEN conjunct1] drag copy(2)
  have b: "\<exists>w'. onCardItemDragEnd example_utils 0 (mkItem ''1'' 0 0 2 1) False ''card'' ?w
                  = Returns w' \<and>
                layouts (state (insts w' 0)) = ?old"
    by metis
  from at_a [THEN conjunct2, THEN conjunct2, rule_format, of ?v ?ticks] grp(2) copy(1)
  have c: "\<exists>w'. onDragEnd 0 (mkItem ''1'' 0 0 2 1) False ''a''
                  (foldl (\<lambda>w tick. moveItem example_utils 0 (fst tick) (fst (snd tick))
                                      (snd (snd tick)) w)
                     (onDragStart example_utils 0 ?v) ?ticks) = Returns w' \<and>
                map geometry (layouts (state (insts w' 0))) = map geometry ?old"
    unfolding start by blast
  from snap a b c show ?thesis by (intro conjI)
qed

subsection \<open>The hover marks at the end of a drag\<close>

lemma onDrop_resets_hoveredGroups:
  "onDrop U this dragItem itemType w = Returns w' \<Longrightarrow> hoveredGroups w' = []"
  by (auto simp: onDrop_def Let_def split: option.splits if_splits)

lemma onDragEnd_resets_hoveredGroups:
  "isGroupItem w this itemType \<Longrightarrow> onDragEnd this item False itemType w = Returns w' \<Longrightarrow>
   hoveredGroups w' = []"
  by (auto simp: onDragEnd_def split: option.splits)

lemma onCardItemDragEnd_keeps_hoveredGroups:
  "onCardItemDragEnd U this item False itemType w = Returns w' \<Longrightarrow>
   hoveredGroups w' = hoveredGroups w"
  by (auto simp: onCardItemDragEnd_def Let_def split: option.splits)

text \<open>
  C2. \<open>onDrop\<close> and the cancellation of a group item in \<open>onDragEnd\<close> end in
  \<open>resetDraggingState\<close>, which empties \<open>hoveredGroups\<close> (the two lemmas above). The branch of
  \<open>onCardItemDragEnd\<close> for a card item that was dropped on no layout sets \<open>draggingItem\<close>,
  \<open>prevPosition\<close> and \<open>layouts\<close> itself and never assigns \<open>hoveredGroups\<close>: a card dragged over
  the layout \<open>a\<close> and released outside leaves \<open>a\<close> marked hovered, with the snapshot restored
  and no dragging item.
\<close>

theorem card_cancel_leaves_hover_marks:
  "\<exists>w'. onCardItemDragEnd example_utils 0 (mkItem ''new'' 0 0 1 1) False ''card''
          (example_world
             (example_layout ''a''
                [mkItem ''1'' 0 1 2 1, (mkItem ''new'' 0 0 1 1)\<lparr>l_placeholder := True\<rparr>]
                (Some [mkItem ''1'' 0 0 2 1])
                (Some (mkItem ''new'' 0 0 1 1)))
             (example_layout ''b'' [] None None) [''a'']) = Returns w' \<and>
        layouts (state (insts w' 0)) = [mkItem ''1'' 0 0 2 1] \<and>
        draggingItem (state (insts w' 0)) = None \<and>
        hoveredGroups w' = [''a'']"
  by (simp add: onCardItemDragEnd_def example_world_def example_layout_def example_utils_def
        mkItem_def setState_def Let_def)

subsection \<open>An item that is not in the layout\<close>

lemma removeOtherGroupItem_absent:
  "map_of (groupLayouts w) g = None \<or>
   (\<exists>r. map_of (groupLayouts w) g = Some r \<and>
        (\<forall>l\<in>set (layouts (state (insts w r))). l_i l \<noteq> l_i layoutItem)) \<Longrightarrow>
   removeOtherGroupItem U layoutItem g w = w"
  by (auto simp: removeOtherGroupItem_def Let_def findIndex_None split: option.splits
           dest: findIndex_Some)

lemma onCardItemDragEnd_absent:
  "draggingItem (state (insts w this)) = None \<or>
   (\<exists>d. draggingItem (state (insts w this)) = Some d \<and> \<not> didDrop \<and>
        (\<forall>l\<in>set (layouts (state (insts w this))). l_i l \<noteq> l_i d)) \<Longrightarrow>
   onCardItemDragEnd U this item didDrop itemType w = Returns w"
  by (auto simp: onCardItemDragEnd_def Let_def findIndex_None split: option.splits
           dest: findIndex_Some)

lemma onDrop_absent:
  "draggingItem (state (insts w this)) = None \<or>
   (\<exists>d. draggingItem (state (insts w this)) = Some d \<and>
        (\<forall>l\<in>set (layouts (state (insts w this))). l_i l \<noteq> l_i d)) \<Longrightarrow>
   onDrop U this dragItem itemType w = Throws TypeError w"
  by (auto simp: onDrop_def Let_def findIndex_None split: option.splits
           dest: findIndex_Some)

text \<open>
  C7. \<open>removeOtherGroupItem\<close> returns at \<open>index === -1\<close> and \<open>onCardItemDragEnd\<close> returns
  without a dragging item or, when nothing was dropped, at an index that is not \<open>> -1\<close>: both
  leave the world as it is (the first two lemmas above). \<open>onDrop\<close> has no such check. With a
  dragging item \<open>9\<close> that the layouts do not hold it raises a TypeError, before it has written
  anything.
\<close>

theorem onDrop_absent_item_raises:
  "onDrop example_utils 0 (mkItem ''9'' 0 0 1 1) ''card''
     (example_world
        (example_layout ''a'' [mkItem ''1'' 0 0 2 1] (Some [mkItem ''1'' 0 0 2 1])
           (Some (mkItem ''9'' 0 0 1 1)))
        (example_layout ''b'' [] None None) [''a''])
   = Throws TypeError
       (example_world
          (example_layout ''a'' [mkItem ''1'' 0 0 2 1] (Some [mkItem ''1'' 0 0 2 1])
             (Some (mkItem ''9'' 0 0 1 1)))
          (example_layout ''b'' [] None None) [''a''])"
  by (simp add: onDrop_def example_world_def example_layout_def mkItem_def Let_def)

subsection \<open>Reporting a change\<close>

text \<open>
  C3. With a host that passed \<open>onLayoutChange\<close>: \<open>onLayoutMaybeChanged(new, old)\<close> calls it,
  once and with a copy of \<open>new\<close>, exactly when \<open>isEqual(old, new)\<close> is false, and returns the
  result of \<open>isEqual\<close>. A drop of an item of the layout's own group, with the dragging item
  found at \<open>k\<close> and the snapshot \<open>old\<close> taken when the drag started, commits the layouts with
  the placeholder flag of that item deleted and reports a change exactly when \<open>isEqual\<close> of
  \<open>old\<close> and the committed layouts is false, before the host's \<open>onDrop\<close> is called.
  \<open>onResizeStop\<close> reports a change exactly when \<open>isEqual\<close> of the snapshot and the compacted
  layouts is false, before the host's \<open>onResizeStop\<close> is called.
\<close>

theorem change_reported_iff_not_equal:
  assumes cb: "p_onLayoutChange (props (insts w this))"
  shows "onLayoutMaybeChanged U this new (Some old) w =
           (if u_isEqual U old new then w
            else emit (LayoutChange this (u_cloneLayouts U new)) w,
            u_isEqual U old new) \<and>
         (\<forall>d k. draggingItem (state (insts w this)) = Some d \<and>
                findIndex (\<lambda>l. l_i l = l_i d) (layouts (state (insts w this))) = Some k \<and>
                oldLayouts (state (insts w this)) = Some old \<longrightarrow>
            (\<exists>w'. onDrop U this dragItem (group (insts w this)) w = Returns w' \<and>
                  layouts (state (insts w' this)) =
                    (layouts (state (insts w this)))
                      [k := (layouts (state (insts w this)) ! k)\<lparr>l_placeholder := False\<rparr>] \<and>
                  emitted w' =
                    emitted w @
                    (if u_isEqual U old (layouts (state (insts w' this))) then []
                     else [LayoutChange this (u_cloneLayouts U (layouts (state (insts w' this))))]) @
                    (if p_onDrop (props (insts w this))
                     then [Drop this (layouts (state (insts w' this)))
                             ((layouts (state (insts w this)) ! k)\<lparr>l_placeholder := False\<rparr>)
                             dragItem (group (insts w this)) (group (insts w this))]
                     else []))) \<and>
         (oldLayouts (state (insts w this)) = Some old \<longrightarrow>
            emitted (onResizeStop U this w) =
              emitted w @
              (if u_isEqual U old
                    (u_compact U (layouts (state (insts w this)))
                       (p_compactType (props (insts w this))) (p_cols (props (insts w this))))
               then []
               else [LayoutChange this
                       (u_cloneLayouts U
                          (u_compact U (layouts (state (insts w this)))
                             (p_compactType (props (insts w this)))
                             (p_cols (props (insts w this)))))]) @
              (if p_onResizeStop (props (insts w this))
               then [ResizeStop this
                       (u_compact U (layouts (state (insts w this)))
                          (p_compactType (props (insts w this))) (p_cols (props (insts w this))))]
               else []))"
proof (intro conjI allI impI)
  show "onLayoutMaybeChanged U this new (Some old) w =
          (if u_isEqual U old new then w
           else emit (LayoutChange this (u_cloneLayouts U new)) w,
           u_isEqual U old new)"
    using cb by (simp add: onLayoutMaybeChanged_def Let_def)
next
  fix d k
  assume a: "draggingItem (state (insts w this)) = Some d \<and>
             findIndex (\<lambda>l. l_i l = l_i d) (layouts (state (insts w this))) = Some k \<and>
             oldLayouts (state (insts w this)) = Some old"
  let ?ls = "layouts (state (insts w this))"
  let ?L = "?ls[k := (?ls ! k)\<lparr>l_placeholder := False\<rparr>]"
  let ?w1 = "setState this (\<lambda>s. s\<lparr>layouts := ?L\<rparr>) w"
  let ?w2 = "fst (onLayoutMaybeChanged U this ?L (Some old) ?w1)"
  let ?w3 = "resetDraggingState this (l_i d) ?w2"
  let ?w' = "if p_onDrop (props (insts w this))
             then emit (Drop this (layouts (state (insts ?w3 this)))
                          ((?ls ! k)\<lparr>l_placeholder := False\<rparr>) dragItem
                          (group (insts w this)) (group (insts w this))) ?w3
             else ?w3"
  have run: "onDrop U this dragItem (group (insts w this)) w = Returns ?w'"
    using a by (simp add: onDrop_def Let_def)
  have l2: "layouts (state (insts ?w2 this)) = ?L"
    by simp
  have l3: "layouts (state (insts ?w3 this)) = ?L"
    unfolding layouts_resetDraggingState l2 getLayoutItem_def findIndex_clear
    using a by (simp add: clear_twice)
  have l': "layouts (state (insts ?w' this)) = ?L"
    using l3 by simp
  have e2: "emitted ?w2 =
              emitted w @ (if u_isEqual U old ?L then []
                           else [LayoutChange this (u_cloneLayouts U ?L)])"
    using cb by (simp add: onLayoutMaybeChanged_def Let_def emit_def)
  have e': "emitted ?w' =
              emitted w @
              (if u_isEqual U old ?L then [] else [LayoutChange this (u_cloneLayouts U ?L)]) @
              (if p_onDrop (props (insts w this))
               then [Drop this ?L ((?ls ! k)\<lparr>l_placeholder := False\<rparr>) dragItem
                       (group (insts w this)) (group (insts w this))]
               else [])"
    using e2 l3 by (simp add: emit_def)
  show "\<exists>w'. onDrop U this dragItem (group (insts w this)) w = Returns w' \<and>
             layouts (state (insts w' this)) = ?L \<and>
             emitted w' =
               emitted w @
               (if u_isEqual U old (layouts (state (insts w' this))) then []
                else [LayoutChange this (u_cloneLayouts U (layouts (state (insts w' this))))]) @
               (if p_onDrop (props (insts w this))
                then [Drop this (layouts (state (insts w' this)))
                        ((?ls ! k)\<lparr>l_placeholder := False\<rparr>)
                        dragItem (group (insts w this)) (group (insts w this))]
                else [])"
    using run l' e' by (intro exI [of _ ?w']) (simp only: simp_thms)
next
  assume a: "oldLayouts (state (insts w this)) = Some old"
  show "emitted (onResizeStop U this w) =
              emitted w @
              (if u_isEqual U old
                    (u_compact U (layouts (state (insts w this)))
                       (p_compactType (props (insts w this))) (p_cols (props (insts w this))))
               then []
               else [LayoutChange this
                       (u_cloneLayouts U
                          (u_compact U (layouts (state (insts w this)))
                             (p_compactType (props (insts w this)))
                             (p_cols (props (insts w this)))))]) @
              (if p_onResizeStop (props (insts w this))
               then [ResizeStop this
                       (u_compact U (layouts (state (insts w this)))
                          (p_compactType (props (insts w this))) (p_cols (props (insts w this))))]
               else [])"
    using a cb by (simp add: onResizeStop_def onLayoutMaybeChanged_def Let_def emit_def)
qed

text \<open>
  An item moved from row 0 to row 1 and dropped in its own layout, or resized there: one
  change is reported, and then the host's own callback runs.
\<close>

theorem change_reported_iff_not_equal_witness:
  "p_onLayoutChange (props (insts
      (example_world
         (example_layout ''a'' [(mkItem ''1'' 0 1 2 1)\<lparr>l_placeholder := True\<rparr>]
            (Some [mkItem ''1'' 0 0 2 1]) (Some (mkItem ''1'' 0 1 2 1)))
         (example_layout ''b'' [] None None) [''a'']) 0)) \<and>
   (\<exists>w'. onDrop example_utils 0 (mkItem ''1'' 0 0 2 1) ''a''
           (example_world
              (example_layout ''a'' [(mkItem ''1'' 0 1 2 1)\<lparr>l_placeholder := True\<rparr>]
                 (Some [mkItem ''1'' 0 0 2 1]) (Some (mkItem ''1'' 0 1 2 1)))
              (example_layout ''b'' [] None None) [''a'']) = Returns w' \<and>
         emitted w' =
           [LayoutChange 0 [mkItem ''1'' 0 1 2 1],
            Drop 0 [mkItem ''1'' 0 1 2 1] (mkItem ''1'' 0 1 2 1) (mkItem ''1'' 0 0 2 1)
              ''a'' ''a'']) \<and>
   emitted (onResizeStop example_utils 0
      (example_world
         (example_layout ''a'' [(mkItem ''1'' 0 1 2 1)\<lparr>l_placeholder := True\<rparr>]
            (Some [mkItem ''1'' 0 0 2 1]) (Some (mkItem ''1'' 0 1 2 1)))
         (example_layout ''b'' [] None None) [''a''])) =
     [LayoutChange 0 [(mkItem ''1'' 0 1 2 1)\<lparr>l_placeholder := True\<rparr>],
      ResizeStop 0 [(mkItem ''1'' 0 1 2 1)\<lparr>l_placeholder := True\<rparr>]]"
proof -
  let ?old = "[mkItem ''1'' 0 0 2 1]"
  let ?w = "example_world
              (example_layout ''a'' [(mkItem ''1'' 0 1 2 1)\<lparr>l_placeholder := True\<rparr>]
                 (Some ?old) (Some (mkItem ''1'' 0 1 2 1)))
              (example_layout ''b'' [] None None) [''a'']"
  have cb: "p_onLayoutChange (props (insts ?w 0))"
    by (simp add: example_world_def example_layout_def example_props_def)
  note at_w = change_reported_iff_not_equal
                [OF cb, of example_utils _ ?old "mkItem ''1'' 0 0 2 1"]
  have facts:
    "draggingItem (state (insts ?w 0)) = Some (mkItem ''1'' 0 1 2 1)"
    "findIndex (\<lambda>l. l_i l = l_i (mkItem ''1'' 0 1 2 1)) (layouts (state (insts ?w 0))) = Some 0"
    "oldLayouts (state (insts ?w 0)) = Some ?old"
    "group (insts ?w 0) = ''a''"
    "layouts (state (insts ?w 0)) = [(mkItem ''1'' 0 1 2 1)\<lparr>l_placeholder := True\<rparr>]"
    "props (insts ?w 0) = example_props ''a'' [(mkItem ''1'' 0 1 2 1)\<lparr>l_placeholder := True\<rparr>]"
    "emitted ?w = []"
    by (simp_all add: example_world_def example_layout_def mkItem_def)
  from at_w facts(1-3)
  have "\<exists>w'. onDrop example_utils 0 (mkItem ''1'' 0 0 2 1) (group (insts ?w 0)) ?w = Returns w' \<and>
             layouts (state (insts w' 0)) =
               (layouts (state (insts ?w 0)))
                 [0 := (layouts (state (insts ?w 0)) ! 0)\<lparr>l_placeholder := False\<rparr>] \<and>
             emitted w' =
               emitted ?w @
               (if u_isEqual example_utils ?old (layouts (state (insts w' 0))) then []
                else [LayoutChange 0 (u_cloneLayouts example_utils (layouts (state (insts w' 0))))]) @
               (if p_onDrop (props (insts ?w 0))
                then [Drop 0 (layouts (state (insts w' 0)))
                        ((layouts (state (insts ?w 0)) ! 0)\<lparr>l_placeholder := False\<rparr>)
                        (mkItem ''1'' 0 0 2 1) (group (insts ?w 0)) (group (insts ?w 0))]
                else [])"
    by blast
  then obtain w' where w':
    "onDrop example_utils 0 (mkItem ''1'' 0 0 2 1) ''a'' ?w = Returns w'"
    "layouts (state (insts w' 0)) = [mkItem ''1'' 0 1 2 1]"
    "emitted w' =
       [] @
       (if u_isEqual example_utils ?old (layouts (state (insts w' 0))) then []
        else [LayoutChange 0 (u_cloneLayouts example_utils (layouts (state (insts w' 0))))]) @
       (if p_onDrop (example_props ''a'' [(mkItem ''1'' 0 1 2 1)\<lparr>l_placeholder := True\<rparr>])
        then [Drop 0 (layouts (state (insts w' 0))) (mkItem ''1'' 0 1 2 1)
                (mkItem ''1'' 0 0 2 1) ''a'' ''a'']
        else [])"
    unfolding facts by (auto simp: mkItem_def)
  have drop: "\<exists>w'. onDrop example_utils 0 (mkItem ''1'' 0 0 2 1) ''a'' ?w = Returns w' \<and>
                emitted w' =
                  [LayoutChange 0 [mkItem ''1'' 0 1 2 1],
                   Drop 0 [mkItem ''1'' 0 1 2 1] (mkItem ''1'' 0 1 2 1) (mkItem ''1'' 0 0 2 1)
                     ''a'' ''a'']"
    using w'(1) w'(3) unfolding w'(2)
    by (intro exI [of _ w']) (simp add: example_utils_def example_props_def mkItem_def)
  have stop: "emitted (onResizeStop example_utils 0 ?w) =
                [LayoutChange 0 [(mkItem ''1'' 0 1 2 1)\<lparr>l_placeholder := True\<rparr>],
                 ResizeStop 0 [(mkItem ''1'' 0 1 2 1)\<lparr>l_placeholder := True\<rparr>]]"
    using at_w facts(3) unfolding facts
    by (simp add: example_utils_def example_props_def compact_def mkItem_def)
  from cb drop stop show ?thesis by blast
qed

subsection \<open>The compactor\<close>

lemma pos_setPos [simp]: "pos t (setPos t v l) = v"
  by (simp add: pos_def setPos_def split: CompactType.splits)

lemma setPos_setPos [simp]: "setPos t v (setPos t u l) = setPos t v l"
  by (simp add: setPos_def split: CompactType.splits)

lemma setPos_pos [simp]: "setPos t (pos t l) l = l"
  by (simp add: pos_def setPos_def split: CompactType.splits)

lemma setPos_fields [simp]:
  "l_i (setPos t v l) = l_i l" "l_static (setPos t v l) = l_static l"
  "l_w (setPos t v l) = l_w l" "l_h (setPos t v l) = l_h l"
  "len t (setPos t v l) = len t l"
  by (simp_all add: setPos_def len_def split: CompactType.splits)

lemma no_collisions: "getAllCollisions P x = [] \<longleftrightarrow> (\<forall>q\<in>set P. \<not> collides q x)"
  by (simp add: getAllCollisions_def filter_empty_conv)

lemma slide_rec:
  "0 < pos t l \<and> getAllCollisions P (setPos t (pos t l - 1) l) = [] \<Longrightarrow>
   slide t P l = slide t P (setPos t (pos t l - 1) l)"
  by (subst slide.simps) simp

lemma slide_fixed:
  "\<not> (0 < pos t l \<and> getAllCollisions P (setPos t (pos t l - 1) l) = []) \<Longrightarrow> slide t P l = l"
  by (subst slide.simps) auto

lemma slide_setPos: "slide t P l = setPos t (pos t (slide t P l)) l"
proof (induction t P l rule: slide.induct)
  case (1 t placed l)
  show ?case
  proof (cases "0 < pos t l \<and> getAllCollisions placed (setPos t (pos t l - 1) l) = []")
    case True
    then have eq: "slide t placed l = slide t placed (setPos t (pos t l - 1) l)"
      by (rule slide_rec)
    from "1.IH" [OF True]
    have "slide t placed (setPos t (pos t l - 1) l) =
            setPos t (pos t (slide t placed (setPos t (pos t l - 1) l))) l"
      by simp
    with eq show ?thesis by simp
  next
    case False
    then have "slide t placed l = l" by (rule slide_fixed)
    then show ?thesis by simp
  qed
qed

lemma slide_le: "pos t (slide t P l) \<le> pos t l"
proof (induction t P l rule: slide.induct)
  case (1 t placed l)
  show ?case
  proof (cases "0 < pos t l \<and> getAllCollisions placed (setPos t (pos t l - 1) l) = []")
    case True
    then have eq: "slide t placed l = slide t placed (setPos t (pos t l - 1) l)"
      by (rule slide_rec)
    from "1.IH" [OF True] show ?thesis unfolding eq by simp
  next
    case False
    then have "slide t placed l = l" by (rule slide_fixed)
    then show ?thesis by simp
  qed
qed

lemma slide_nonneg: "0 \<le> pos t l \<Longrightarrow> 0 \<le> pos t (slide t P l)"
proof (induction t P l rule: slide.induct)
  case (1 t placed l)
  show ?case
  proof (cases "0 < pos t l \<and> getAllCollisions placed (setPos t (pos t l - 1) l) = []")
    case True
    then have eq: "slide t placed l = slide t placed (setPos t (pos t l - 1) l)"
      by (rule slide_rec)
    from "1.IH" [OF True] True show ?thesis unfolding eq by simp
  next
    case False
    then have "slide t placed l = l" by (rule slide_fixed)
    with "1.prems" show ?thesis by simp
  qed
qed

lemma slide_blocked:
  "\<not> (0 < pos t (slide t P l) \<and>
      getAllCollisions P (setPos t (pos t (slide t P l) - 1) (slide t P l)) = [])"
proof (induction t P l rule: slide.induct)
  case (1 t placed l)
  show ?case
  proof (cases "0 < pos t l \<and> getAllCollisions placed (setPos t (pos t l - 1) l) = []")
    case True
    then have eq: "slide t placed l = slide t placed (setPos t (pos t l - 1) l)"
      by (rule slide_rec)
    from "1.IH" [OF True] show ?thesis unfolding eq .
  next
    case False
    then have "slide t placed l = l" by (rule slide_fixed)
    with False show ?thesis by simp
  qed
qed

lemma slide_free:
  "pos t (slide t P l) < pos t l \<Longrightarrow> getAllCollisions P (slide t P l) = []"
proof (induction t P l rule: slide.induct)
  case (1 t placed l)
  show ?case
  proof (cases "0 < pos t l \<and> getAllCollisions placed (setPos t (pos t l - 1) l) = []")
    case True
    let ?l1 = "setPos t (pos t l - 1) l"
    from True have eq: "slide t placed l = slide t placed ?l1"
      by (rule slide_rec)
    show ?thesis
    proof (cases "pos t (slide t placed ?l1) < pos t ?l1")
      case True
      from "1.IH" [OF \<open>0 < pos t l \<and> getAllCollisions placed ?l1 = []\<close> True]
      show ?thesis unfolding eq .
    next
      case False
      with slide_le [of t placed ?l1] have "pos t (slide t placed ?l1) = pos t ?l1"
        by simp
      then have "slide t placed ?l1 = ?l1"
        using slide_setPos [of t placed ?l1] by simp
      with \<open>0 < pos t l \<and> getAllCollisions placed ?l1 = []\<close> show ?thesis
        unfolding eq by simp
    qed
  next
    case False
    then have "slide t placed l = l" by (rule slide_fixed)
    with "1.prems" show ?thesis by simp
  qed
qed

lemma slide_fields [simp]:
  "l_i (slide t P l) = l_i l" "l_static (slide t P l) = l_static l"
  "l_w (slide t P l) = l_w l" "l_h (slide t P l) = l_h l" "len t (slide t P l) = len t l"
  by (subst slide_setPos, simp)+

lemma inside_slide: "inside t cols l \<Longrightarrow> inside t cols (slide t P l)"
  using slide_le [of t P l] slide_nonneg [of t l P]
  by (auto simp: inside_def pos_def)

lemma compactItem_inside: "inside t cols l \<Longrightarrow> compactItem t cols P l = slide t P l"
  using inside_slide [of t cols l P]
  by (auto simp: compactItem_def inside_def clampX_def split: CompactType.splits)

lemma compactItem_fields [simp]:
  "l_i (compactItem t cols P l) = l_i l" "l_static (compactItem t cols P l) = l_static l"
  by (simp_all add: compactItem_def clampX_def split: CompactType.splits)

lemma collides_step:
  "collides q (setPos t (p - 1) l) \<Longrightarrow> p \<le> pos t q \<Longrightarrow> 1 \<le> len t q \<Longrightarrow>
   collides q (setPos t p l)"
  by (cases t) (auto simp: collides_def meets_def setPos_def pos_def len_def)


lemma sortKey_eq: "sortKey t e = (pos t (snd e), opos t (snd e), fst e)"
  by (simp add: sortKey_def pos_def opos_def split: CompactType.splits)

lemma opos_setPos [simp]: "opos t (setPos t v l) = opos t l"
  by (simp add: opos_def setPos_def split: CompactType.splits)

lemma opos_slide [simp]: "opos t (slide t P l) = opos t l"
  by (subst slide_setPos) simp

lemma place_length [simp]: "length (place mv P xs) = length xs"
  by (induction xs arbitrary: P) simp_all

lemma place_fst [simp]: "map fst (place mv P xs) = map fst xs"
  by (induction xs arbitrary: P) simp_all

lemma place_nth:
  "m < length xs \<Longrightarrow>
   place mv P xs ! m = (fst (xs ! m), mv (P @ map snd (take m (place mv P xs))) (snd (xs ! m)))"
proof (induction xs arbitrary: P m)
  case Nil
  then show ?case by simp
next
  case (Cons e xs)
  show ?case
  proof (cases m)
    case 0
    then show ?thesis by simp
  next
    case (Suc m')
    with Cons.prems have "m' < length xs" by simp
    from Cons.IH [OF this, of "P @ [mv P (snd e)]"] Suc show ?thesis by simp
  qed
qed

lemma place_cong:
  "(\<And>e Q. e \<in> set xs \<Longrightarrow> mv Q (snd e) = mv' Q (snd e)) \<Longrightarrow> place mv P xs = place mv' P xs"
  by (induction xs arbitrary: P) simp_all

lemma place_fixed:
  "(\<And>ys e zs. xs = ys @ e # zs \<Longrightarrow> mv (P @ map snd ys) (snd e) = snd e) \<Longrightarrow>
   place mv P xs = xs"
proof (induction xs arbitrary: P)
  case Nil
  then show ?case by simp
next
  case (Cons a xs)
  have a: "mv P (snd a) = snd a"
    using Cons.prems [of "[]" a xs] by simp
  have "place mv (P @ [snd a]) xs = xs"
  proof (rule Cons.IH)
    fix ys e zs
    assume "xs = ys @ e # zs"
    then have "a # xs = (a # ys) @ e # zs" by simp
    from Cons.prems [OF this] show "mv ((P @ [snd a]) @ map snd ys) (snd e) = snd e"
      by simp
  qed
  with a show ?case by simp
qed

lemma order_kept:
  assumes srt: "sorted (map (sortKey t) S)" and dst: "distinct (map (sortKey t) S)"
    and jm: "j < m" "m < length S"
    and ln: "1 \<le> len t (snd (S ! j))"
    and coll: "collides (snd (place (slide t) P S ! j))
                 (setPos t (pos t (snd (place (slide t) P S ! m)) - 1)
                    (snd (place (slide t) P S ! m)))"
  shows "sortKey t (place (slide t) P S ! j) < sortKey t (place (slide t) P S ! m)"
proof -
  let ?R = "place (slide t) P S"
  let ?Pj = "P @ map snd (take j ?R)"
  let ?Pm = "P @ map snd (take m ?R)"
  let ?lj = "snd (S ! j)" and ?lm = "snd (S ! m)"
  let ?lj' = "slide t ?Pj ?lj" and ?lm' = "slide t ?Pm ?lm"
  have j: "j < length S" using jm by simp
  have Rj: "?R ! j = (fst (S ! j), ?lj')" using place_nth [OF j] .
  have Rm: "?R ! m = (fst (S ! m), ?lm')" using place_nth [OF jm(2)] .
  have "sortKey t (S ! j) \<le> sortKey t (S ! m)"
    using sorted_nth_mono [OF srt, of j m] jm by simp
  moreover have "sortKey t (S ! j) \<noteq> sortKey t (S ! m)"
    using dst jm nth_eq_iff_index_eq [of "map (sortKey t) S" j m] by simp
  ultimately have key: "sortKey t (S ! j) < sortKey t (S ! m)" by simp
  show ?thesis
  proof (cases "pos t ?lj' < pos t ?lm'")
    case True
    then show ?thesis unfolding Rj Rm by (simp add: sortKey_eq)
  next
    case False
    then have ge: "pos t ?lm' \<le> pos t ?lj'" by simp
    from coll have "collides ?lj' (setPos t (pos t ?lm' - 1) ?lm')"
      unfolding Rj Rm by simp
    from collides_step [OF this ge] ln have hit: "collides ?lj' ?lm'" by simp
    have "?lj' \<in> set ?Pm"
    proof -
      have "?R ! j \<in> set (take m ?R)"
        using jm by (auto simp: in_set_conv_nth intro!: exI [of _ j])
      then have "snd (?R ! j) \<in> snd ` set (take m ?R)" by (rule imageI)
      then show ?thesis unfolding Rj by simp
    qed
    with hit have "getAllCollisions ?Pm ?lm' \<noteq> []"
      by (auto simp: no_collisions)
    with slide_free [of t ?Pm ?lm] slide_le [of t ?Pm ?lm]
    have pm: "pos t ?lm' = pos t ?lm" by (cases "pos t ?lm' < pos t ?lm") auto
    from key have "pos t ?lj \<le> pos t ?lm"
      by (auto simp: sortKey_eq less_prod_def)
    with ge pm slide_le [of t ?Pj ?lj] have pj: "pos t ?lj' = pos t ?lj" by simp
    from pm have "?lm' = ?lm" using slide_setPos [of t ?Pm ?lm] by simp
    moreover from pj have "?lj' = ?lj" using slide_setPos [of t ?Pj ?lj] by simp
    ultimately show ?thesis
      unfolding Rj Rm using key by simp
  qed
qed

lemma second_pass_fixed:
  assumes srt: "sorted (map (sortKey t) S)" and dst: "distinct (map (sortKey t) S)"
    and ln: "\<forall>e\<in>set S. 1 \<le> len t (snd e)"
    and same: "set S2 = set (place (slide t) P S)"
    and srt2: "sorted (map (sortKey t) S2)"
  shows "place (slide t) P S2 = S2"
proof (rule place_fixed)
  fix ys e zs
  assume split: "S2 = ys @ e # zs"
  let ?R = "place (slide t) P S"
  from split same have "e \<in> set ?R" by auto
  then obtain m where m: "m < length S" "?R ! m = e"
    by (auto simp: in_set_conv_nth)
  let ?Pm = "P @ map snd (take m ?R)"
  have e: "snd e = slide t ?Pm (snd (S ! m))"
    using place_nth [OF m(1), of "slide t" P] m(2) by (metis snd_conv)
  have later: "\<forall>z\<in>set zs. sortKey t e \<le> sortKey t z"
    using srt2 unfolding split by (simp add: sorted_append)
  show "slide t (P @ map snd ys) (snd e) = snd e"
  proof (rule slide_fixed, rule notI)
    assume free: "0 < pos t (snd e) \<and>
                  getAllCollisions (P @ map snd ys) (setPos t (pos t (snd e) - 1) (snd e)) = []"
    with slide_blocked [of t ?Pm "snd (S ! m)"]
    have "getAllCollisions ?Pm (setPos t (pos t (snd e) - 1) (snd e)) \<noteq> []"
      unfolding e [symmetric] by simp
    then obtain q where q: "q \<in> set ?Pm" "collides q (setPos t (pos t (snd e) - 1) (snd e))"
      by (auto simp: no_collisions)
    from free q(2) have "q \<notin> set P"
      by (auto simp: no_collisions)
    with q(1) obtain j where j: "j < m" "q = snd (?R ! j)"
      using m(1) by (auto simp: in_set_conv_nth)
    have "j < length S" using j(1) m(1) by simp
    then have "1 \<le> len t (snd (S ! j))" using ln by simp
    from order_kept [OF srt dst j(1) m(1) this, of P] q(2)
    have less: "sortKey t (?R ! j) < sortKey t e"
      unfolding j(2) m(2) by simp
    have "?R ! j \<in> set S2"
      using same \<open>j < length S\<close> by simp
    with less later have "?R ! j \<in> set ys"
      unfolding split by auto
    then have "q \<in> set (P @ map snd ys)"
      unfolding j(2) by simp
    with free q(2) show False
      by (auto simp: no_collisions)
  qed
qed


lemma compact_moved:
  "t \<noteq> NoCompact \<Longrightarrow>
   compact ls t c =
     map (\<lambda>e. case map_of (place (compactItem t c) (filter l_static ls)
                             (sort_key (sortKey t)
                                (filter (\<lambda>e. \<not> l_static (snd e)) (enumerate 0 ls))))
                    (fst e) of
                None \<Rightarrow> snd e | Some l \<Rightarrow> l)
       (enumerate 0 ls)"
  by (cases t) (simp_all add: compact_def Let_def)

lemma distinct_fst_sort_key:
  "distinct (map fst (sort_key f xs)) = distinct (map fst xs)"
  by (simp add: distinct_map)

lemma sortKey_inj: "inj_on fst A \<Longrightarrow> inj_on (sortKey t) A"
  by (auto simp: inj_on_def sortKey_eq)

lemma enumerate_map_snd:
  "enumerate 0 (map g (enumerate 0 ls)) = map (\<lambda>e. (fst e, g e)) (enumerate 0 ls)"
  by (rule nth_equalityI) (simp_all add: nth_enumerate_eq)

lemma compact_fixed:
  assumes t: "t \<noteq> NoCompact"
    and wf: "\<forall>l\<in>set ls. 1 \<le> len t l"
    and ins: "\<forall>l\<in>set ls. inside t c l"
  shows "compact (compact ls t c) t c = compact ls t c"
proof -
  define E where "E = enumerate 0 ls"
  define M where "M = filter (\<lambda>e. \<not> l_static (snd e)) E"
  define S where "S = sort_key (sortKey t) M"
  define P where "P = filter l_static ls"
  define R where "R = place (compactItem t c) P S"
  define g where "g = (\<lambda>e. case map_of R (fst e) of None \<Rightarrow> snd e | Some l \<Rightarrow> l)"
  define out where "out = map g E"
  have out: "compact ls t c = out"
    unfolding out_def g_def R_def P_def S_def M_def E_def by (rule compact_moved [OF t])
  have E_fst: "distinct (map fst E)"
    unfolding E_def by simp
  have E_set: "e \<in> set E \<Longrightarrow> snd e \<in> set ls" for e
    unfolding E_def by (cases e) (auto simp: in_set_enumerate_eq)
  have M_sub: "set M \<subseteq> set E" unfolding M_def by auto
  have S_set: "set S = set M" unfolding S_def by simp
  have M_fst: "distinct (map fst M)"
    unfolding M_def using E_fst by (rule distinct_map_filter)
  have S_fst: "distinct (map fst S)"
    unfolding S_def using M_fst by (simp add: distinct_fst_sort_key)
  have S_srt: "sorted (map (sortKey t) S)"
    unfolding S_def by (rule sorted_sort_key)
  have S_dst: "distinct (map (sortKey t) S)"
    using S_fst by (auto simp: distinct_map intro: sortKey_inj)
  have S_len: "\<forall>e\<in>set S. 1 \<le> len t (snd e)"
    using wf E_set M_sub S_set by blast
  have S_ins: "\<forall>e\<in>set S. inside t c (snd e)"
    using ins E_set M_sub S_set by blast
  have R_slide: "R = place (slide t) P S"
    unfolding R_def using S_ins by (intro place_cong compactItem_inside) simp
  have R_fst: "map fst R = map fst S"
    unfolding R_def by simp
  have R_dist: "distinct (map fst R)"
    using S_fst R_fst by simp
  have R_elem: "\<exists>l Q. (k, l) \<in> set S \<and> l' = slide t Q l" if "(k, l') \<in> set R" for k l'
  proof -
    from that obtain m where m: "m < length S" "R ! m = (k, l')"
      unfolding R_slide by (auto simp: in_set_conv_nth)
    from place_nth [OF m(1), of "slide t" P] m(2)
    have "k = fst (S ! m)" "l' = slide t (P @ map snd (take m R)) (snd (S ! m))"
      unfolding R_slide by simp_all
    moreover have "S ! m \<in> set S" using m(1) by simp
    ultimately show ?thesis by (metis prod.collapse)
  qed
  have R_ns: "\<not> l_static l'" if "(k, l') \<in> set R" for k l'
    using R_elem [OF that] S_set unfolding M_def by auto
  have R_ins: "inside t c l'" if "(k, l') \<in> set R" for k l'
    using R_elem [OF that] S_ins by (force intro: inside_slide)
  have g_static: "g e = snd e" if "e \<in> set E" "l_static (snd e)" for e
  proof -
    have "fst e \<notin> fst ` set S"
    proof
      assume "fst e \<in> fst ` set S"
      then obtain e' where e': "e' \<in> set M" "fst e' = fst e"
        using S_set by auto
      with M_sub that(1) E_fst have "e' = e"
        by (metis (no_types, lifting) distinct_map inj_onD subsetD)
      with e'(1) that(2) show False unfolding M_def by simp
    qed
    then have "fst e \<notin> fst ` set R"
      using R_fst by (metis set_map)
    then have "map_of R (fst e) = None"
      by (simp add: map_of_eq_None_iff)
    then show ?thesis unfolding g_def by simp
  qed
  have g_moved: "(fst e, g e) \<in> set R" if "e \<in> set M" for e
  proof -
    have "fst e \<in> fst ` set R"
      using that S_set R_fst by (metis image_eqI set_map)
    then obtain l' where l': "(fst e, l') \<in> set R" by auto
    with R_dist have "map_of R (fst e) = Some l'" by simp
    with l' show ?thesis unfolding g_def by simp
  qed
  have g_flag: "l_static (g e) = l_static (snd e)" if "e \<in> set E" for e
  proof (cases "l_static (snd e)")
    case True
    with g_static [OF that] show ?thesis by simp
  next
    case False
    with that have "e \<in> set M" unfolding M_def by simp
    from R_ns [OF g_moved [OF this]] False show ?thesis by simp
  qed
  have statics: "filter l_static out = P"
  proof -
    have "filter l_static out = map g (filter (\<lambda>e. l_static (g e)) E)"
      unfolding out_def by (simp add: filter_map comp_def)
    also have "\<dots> = map g (filter (\<lambda>e. l_static (snd e)) E)"
      using g_flag by (metis (mono_tags, lifting) filter_cong)
    also have "\<dots> = map snd (filter (\<lambda>e. l_static (snd e)) E)"
      using g_static by (intro map_cong) auto
    also have "\<dots> = filter l_static (map snd E)"
      by (simp add: filter_map comp_def)
    also have "\<dots> = P"
      unfolding P_def E_def by simp
    finally show ?thesis .
  qed
  define E2 where "E2 = map (\<lambda>e. (fst e, g e)) E"
  have E2: "enumerate 0 out = E2"
    unfolding out_def E2_def E_def by (rule enumerate_map_snd)
  define M2 where "M2 = filter (\<lambda>e. \<not> l_static (snd e)) E2"
  define S2 where "S2 = sort_key (sortKey t) M2"
  have M2_set: "set M2 = set R"
  proof
    show "set M2 \<subseteq> set R"
    proof
      fix x assume "x \<in> set M2"
      then obtain e where e: "e \<in> set E" "x = (fst e, g e)" "\<not> l_static (g e)"
        unfolding M2_def E2_def by auto
      with g_flag have "e \<in> set M" unfolding M_def by simp
      from g_moved [OF this] e(2) show "x \<in> set R" by simp
    qed
    show "set R \<subseteq> set M2"
    proof
      fix x assume x: "x \<in> set R"
      then have "fst x \<in> fst ` set S"
        using R_fst by (metis image_eqI set_map)
      then obtain e where e: "e \<in> set M" "fst e = fst x"
        using S_set by auto
      from g_moved [OF e(1)] x R_dist e(2) have "g e = snd x"
        by (metis eq_key_imp_eq_value prod.collapse)
      with e(2) have xe: "x = (fst e, g e)" by (metis prod.collapse)
      moreover have "e \<in> set E" using e(1) M_sub by auto
      moreover have "\<not> l_static (g e)"
        using R_ns [of "fst e" "g e"] x xe by simp
      ultimately show "x \<in> set M2"
        unfolding M2_def E2_def by auto
    qed
  qed
  have M2_fst: "distinct (map fst M2)"
  proof -
    have "map fst E2 = map fst E" unfolding E2_def by (simp add: comp_def)
    with E_fst have "distinct (map fst E2)" by simp
    then show ?thesis unfolding M2_def by (rule distinct_map_filter)
  qed
  have S2_set: "set S2 = set R" unfolding S2_def using M2_set by simp
  have S2_fst: "distinct (map fst S2)"
    unfolding S2_def using M2_fst by (simp add: distinct_fst_sort_key)
  have S2_srt: "sorted (map (sortKey t) S2)"
    unfolding S2_def by (rule sorted_sort_key)
  have pass2: "place (compactItem t c) P S2 = S2"
  proof -
    have "place (compactItem t c) P S2 = place (slide t) P S2"
    proof (rule place_cong)
      fix e Q assume "e \<in> set S2"
      then have "inside t c (snd e)"
        using S2_set R_ins by (metis prod.collapse)
      then show "compactItem t c Q (snd e) = slide t Q (snd e)"
        by (rule compactItem_inside)
    qed
    also have "\<dots> = S2"
      using S_srt S_dst S_len S2_set [unfolded R_slide] S2_srt by (rule second_pass_fixed)
    finally show ?thesis .
  qed
  have lookup: "map_of S2 = map_of R"
    using S2_fst R_dist S2_set by (simp add: map_of_inject_set)
  have "compact out t c =
          map (\<lambda>e. case map_of (place (compactItem t c) (filter l_static out)
                                  (sort_key (sortKey t)
                                     (filter (\<lambda>e. \<not> l_static (snd e)) (enumerate 0 out))))
                         (fst e) of
                     None \<Rightarrow> snd e | Some l \<Rightarrow> l)
            (enumerate 0 out)"
    by (rule compact_moved [OF t])
  also have "\<dots> = map (\<lambda>e. case map_of R (fst e) of None \<Rightarrow> snd e | Some l \<Rightarrow> l) E2"
    unfolding statics E2 M2_def [symmetric] S2_def [symmetric] pass2 lookup ..
  also have "\<dots> = map g E"
    unfolding E2_def g_def by (simp add: comp_def split: option.splits)
  finally show ?thesis
    unfolding out out_def .
qed


lemma place_elem:
  assumes "(k, l') \<in> set (place mv P xs)"
  shows "\<exists>l Q. (k, l) \<in> set xs \<and> l' = mv Q l"
proof -
  from assms obtain m where m: "m < length xs" "place mv P xs ! m = (k, l')"
    by (auto simp: in_set_conv_nth)
  from place_nth [OF m(1), of mv P] m(2)
  have "k = fst (xs ! m)" "l' = mv (P @ map snd (take m (place mv P xs))) (snd (xs ! m))"
    by simp_all
  moreover have "xs ! m \<in> set xs" using m(1) by simp
  ultimately show ?thesis by (metis prod.collapse)
qed

lemma compact_ids: "map l_i (compact ls t c) = map l_i ls"
proof (cases "t = NoCompact")
  case True
  then show ?thesis by (simp add: compact_def)
next
  case False
  define E where "E = enumerate 0 ls"
  define S where "S = sort_key (sortKey t) (filter (\<lambda>e. \<not> l_static (snd e)) E)"
  define R where "R = place (compactItem t c) (filter l_static ls) S"
  have E_fst: "distinct (map fst E)" unfolding E_def by simp
  have S_sub: "set S \<subseteq> set E" unfolding S_def by auto
  have id: "l_i (case map_of R (fst e) of None \<Rightarrow> snd e | Some l \<Rightarrow> l) = l_i (snd e)"
    if e: "e \<in> set E" for e
  proof (cases "map_of R (fst e)")
    case None
    then show ?thesis by simp
  next
    case (Some l')
    then have "(fst e, l') \<in> set R" by (rule map_of_SomeD)
    from place_elem [OF this [unfolded R_def]]
    obtain l Q where l: "(fst e, l) \<in> set S" "l' = compactItem t c Q l" by blast
    from l(1) S_sub have "(fst e, l) \<in> set E" by auto
    with e E_fst have "l = snd e"
      by (metis eq_key_imp_eq_value prod.collapse)
    with l(2) Some show ?thesis by simp
  qed
  have "map l_i (compact ls t c) =
          map (\<lambda>e. l_i (case map_of R (fst e) of None \<Rightarrow> snd e | Some l \<Rightarrow> l)) E"
    unfolding compact_moved [OF False] R_def S_def E_def by (simp add: comp_def)
  also have "\<dots> = map (\<lambda>e. l_i (snd e)) E"
    using id by (intro map_cong) auto
  also have "\<dots> = map l_i (map snd E)"
    by (simp add: comp_def)
  also have "\<dots> = map l_i ls"
    unfolding E_def by (simp only: map_snd_enumerate)
  finally show ?thesis .
qed

text \<open>
  C8 as stated fails for the compactor of the spec. Five columns, a static item over the
  columns 0 to 2 of row 0, an item \<open>q\<close> in column 3 over the rows 0 and 1, and an item \<open>b\<close>
  of width 3 at \<open>x = 4\<close> in row 1, which reaches beyond the columns. The first compaction
  handles \<open>q\<close> before \<open>b\<close>: \<open>b\<close> cannot slide past \<open>q\<close> and is clamped to \<open>x = 2\<close>, on top of
  \<open>q\<close>. The second one sorts \<open>b\<close> before \<open>q\<close>, and \<open>b\<close> slides to \<open>x = 0\<close>.
\<close>

theorem compact_not_idempotent:
  "compact (compact [(mkItem ''s'' 0 0 3 1)\<lparr>l_static := True\<rparr>, mkItem ''q'' 3 0 1 2,
                     mkItem ''b'' 4 1 3 1] Horizontal 5) Horizontal 5
   \<noteq> compact [(mkItem ''s'' 0 0 3 1)\<lparr>l_static := True\<rparr>, mkItem ''q'' 3 0 1 2,
               mkItem ''b'' 4 1 3 1] Horizontal 5"
  by code_simp

text \<open>
  C8, amended. For every layout whose items have a width and a height of at least one cell
  (the data model of the spec), and which for a horizontal compaction lies within the
  columns (\<open>0 \<le> x\<close> and \<open>x + w \<le> c\<close> for every item), and for every compact type and column
  count, \<open>compact\<close> is idempotent.
\<close>

theorem compact_idempotent_within_columns:
  assumes size: "\<forall>l\<in>set ls. 1 \<le> l_w l \<and> 1 \<le> l_h l"
    and cols: "t = Horizontal \<longrightarrow> (\<forall>l\<in>set ls. 0 \<le> l_x l \<and> l_x l + l_w l \<le> c)"
  shows "compact (compact ls t c) t c = compact ls t c"
proof (cases "t = NoCompact")
  case True
  then show ?thesis by (simp add: compact_def)
next
  case False
  have "\<forall>l\<in>set ls. 1 \<le> len t l"
    using size by (auto simp: len_def split: CompactType.splits)
  moreover have "\<forall>l\<in>set ls. inside t c l"
    using cols by (auto simp: inside_def)
  ultimately show ?thesis
    by (rule compact_fixed [OF False])
qed

text \<open>The layout of the counterexample with \<open>b\<close> inside the columns, at \<open>x = 2\<close>.\<close>

theorem compact_idempotent_within_columns_witness:
  "compact [(mkItem ''s'' 0 0 3 1)\<lparr>l_static := True\<rparr>, mkItem ''q'' 3 0 1 2,
            mkItem ''b'' 2 1 3 1] Horizontal 5
     = [(mkItem ''s'' 0 0 3 1)\<lparr>l_static := True\<rparr>, mkItem ''q'' 3 0 1 2, mkItem ''b'' 0 1 3 1] \<and>
   compact (compact [(mkItem ''s'' 0 0 3 1)\<lparr>l_static := True\<rparr>, mkItem ''q'' 3 0 1 2,
                     mkItem ''b'' 2 1 3 1] Horizontal 5) Horizontal 5
     = compact [(mkItem ''s'' 0 0 3 1)\<lparr>l_static := True\<rparr>, mkItem ''q'' 3 0 1 2,
                mkItem ''b'' 2 1 3 1] Horizontal 5"
proof -
  let ?ls = "[(mkItem ''s'' 0 0 3 1)\<lparr>l_static := True\<rparr>, mkItem ''q'' 3 0 1 2,
              mkItem ''b'' 2 1 3 1]"
  have size: "\<forall>l\<in>set ?ls. 1 \<le> l_w l \<and> 1 \<le> l_h l"
    by (simp add: mkItem_def)
  have cols: "Horizontal = Horizontal \<longrightarrow> (\<forall>l\<in>set ?ls. 0 \<le> l_x l \<and> l_x l + l_w l \<le> 5)"
    by (simp add: mkItem_def)
  have val: "compact ?ls Horizontal 5 =
               [(mkItem ''s'' 0 0 3 1)\<lparr>l_static := True\<rparr>, mkItem ''q'' 3 0 1 2,
                mkItem ''b'' 0 1 3 1]"
    by code_simp
  from val compact_idempotent_within_columns [OF size cols] show ?thesis
    by (rule conjI)
qed


subsection \<open>Releasing the item in the groups hovered before\<close>

lemma splice1_drops_unique:
  assumes "distinct (map f xs)" and "k < length xs"
  shows "f (xs ! k) \<notin> f ` set (splice1 k xs)"
proof -
  have "xs = take k xs @ xs ! k # drop (Suc k) xs"
    using assms(2) by (rule id_take_nth_drop)
  then have "distinct (map f (take k xs @ xs ! k # drop (Suc k) xs))"
    using assms(1) by simp
  then show ?thesis
    by (auto simp: splice1_def)
qed

lemma removeOtherGroupItem_frame:
  "groupLayouts (removeOtherGroupItem U li g w) = groupLayouts w \<and>
   hoveredGroups (removeOtherGroupItem U li g w) = hoveredGroups w \<and>
   group (insts (removeOtherGroupItem U li g w) q) = group (insts w q) \<and>
   props (insts (removeOtherGroupItem U li g w) q) = props (insts w q)"
  by (simp add: removeOtherGroupItem_def Let_def split: option.splits)

lemma removeOtherGroupItem_state:
  "state (insts (removeOtherGroupItem U li g w) q) =
     (if map_of (groupLayouts w) g = Some q
      then (case findIndex (\<lambda>l. l_i l = l_i li) (layouts (state (insts w q))) of
              None \<Rightarrow> state (insts w q)
            | Some k \<Rightarrow> (state (insts w q))
                \<lparr>layouts := u_compact U (splice1 k (layouts (state (insts w q))))
                              (p_compactType (props (insts w q))) (p_cols (props (insts w q))),
                 draggingItem := None, prevPosition := None\<rparr>)
      else state (insts w q))"
  by (auto simp: removeOtherGroupItem_def Let_def split: option.splits)

lemma release_fold:
  assumes "distinct gs"
    and "\<forall>g r. map_of (groupLayouts w) g = Some r \<longrightarrow> group (insts w r) = g"
  shows "groupLayouts (foldl (\<lambda>w' g. if g \<noteq> g0 then removeOtherGroupItem U li g w' else w') w gs)
           = groupLayouts w \<and>
         hoveredGroups (foldl (\<lambda>w' g. if g \<noteq> g0 then removeOtherGroupItem U li g w' else w') w gs)
           = hoveredGroups w \<and>
         (\<forall>q. group (insts (foldl (\<lambda>w' g. if g \<noteq> g0 then removeOtherGroupItem U li g w' else w') w gs) q)
                = group (insts w q) \<and>
              props (insts (foldl (\<lambda>w' g. if g \<noteq> g0 then removeOtherGroupItem U li g w' else w') w gs) q)
                = props (insts w q) \<and>
              state (insts (foldl (\<lambda>w' g. if g \<noteq> g0 then removeOtherGroupItem U li g w' else w') w gs) q)
                = (if \<exists>g\<in>set gs. g \<noteq> g0 \<and> map_of (groupLayouts w) g = Some q
                   then (case findIndex (\<lambda>l. l_i l = l_i li) (layouts (state (insts w q))) of
                           None \<Rightarrow> state (insts w q)
                         | Some k \<Rightarrow> (state (insts w q))
                             \<lparr>layouts := u_compact U (splice1 k (layouts (state (insts w q))))
                                           (p_compactType (props (insts w q)))
                                           (p_cols (props (insts w q))),
                              draggingItem := None, prevPosition := None\<rparr>)
                   else state (insts w q)))"
  using assms
proof (induction gs arbitrary: w)
  case Nil
  then show ?case by simp
next
  case (Cons g gs)
  let ?step = "\<lambda>w' g. if g \<noteq> g0 then removeOtherGroupItem U li g w' else w'"
  let ?w1 = "?step w g"
  have fr: "groupLayouts ?w1 = groupLayouts w" "hoveredGroups ?w1 = hoveredGroups w"
    "\<And>q. group (insts ?w1 q) = group (insts w q)"
    "\<And>q. props (insts ?w1 q) = props (insts w q)"
    by (simp_all add: removeOtherGroupItem_frame)
  have reg1: "\<forall>g r. map_of (groupLayouts ?w1) g = Some r \<longrightarrow> group (insts ?w1 r) = g"
    using Cons.prems(2) unfolding fr by simp
  have d: "distinct gs" using Cons.prems(1) by simp
  note IH = Cons.IH [OF d reg1]
  have st1: "\<And>q. state (insts ?w1 q) =
      (if g \<noteq> g0 \<and> map_of (groupLayouts w) g = Some q
       then (case findIndex (\<lambda>l. l_i l = l_i li) (layouts (state (insts w q))) of
               None \<Rightarrow> state (insts w q)
             | Some k \<Rightarrow> (state (insts w q))
                 \<lparr>layouts := u_compact U (splice1 k (layouts (state (insts w q))))
                               (p_compactType (props (insts w q))) (p_cols (props (insts w q))),
                  draggingItem := None, prevPosition := None\<rparr>)
       else state (insts w q))"
    by (simp add: removeOtherGroupItem_state)
  have excl: "\<And>q g'. g' \<in> set gs \<Longrightarrow> map_of (groupLayouts w) g' = Some q \<Longrightarrow>
                \<not> (map_of (groupLayouts w) g = Some q)"
    using Cons.prems by auto
  show ?case
  proof (intro conjI allI)
    show "groupLayouts (foldl ?step w (g # gs)) = groupLayouts w"
      using IH fr by simp
    show "hoveredGroups (foldl ?step w (g # gs)) = hoveredGroups w"
      using IH fr by simp
  next
    fix q
    show "group (insts (foldl ?step w (g # gs)) q) = group (insts w q)"
      using IH fr by simp
    show "props (insts (foldl ?step w (g # gs)) q) = props (insts w q)"
      using IH fr by simp
    have "state (insts (foldl ?step ?w1 gs) q) =
            (if \<exists>g\<in>set gs. g \<noteq> g0 \<and> map_of (groupLayouts ?w1) g = Some q
             then (case findIndex (\<lambda>l. l_i l = l_i li) (layouts (state (insts ?w1 q))) of
                     None \<Rightarrow> state (insts ?w1 q)
                   | Some k \<Rightarrow> (state (insts ?w1 q))
                       \<lparr>layouts := u_compact U (splice1 k (layouts (state (insts ?w1 q))))
                                     (p_compactType (props (insts ?w1 q)))
                                     (p_cols (props (insts ?w1 q))),
                        draggingItem := None, prevPosition := None\<rparr>)
             else state (insts ?w1 q))"
      using IH by blast
    then show "state (insts (foldl ?step w (g # gs)) q) =
            (if \<exists>g\<in>set (g # gs). g \<noteq> g0 \<and> map_of (groupLayouts w) g = Some q
             then (case findIndex (\<lambda>l. l_i l = l_i li) (layouts (state (insts w q))) of
                     None \<Rightarrow> state (insts w q)
                   | Some k \<Rightarrow> (state (insts w q))
                       \<lparr>layouts := u_compact U (splice1 k (layouts (state (insts w q))))
                                     (p_compactType (props (insts w q)))
                                     (p_cols (props (insts w q))),
                        draggingItem := None, prevPosition := None\<rparr>)
             else state (insts w q))"
      unfolding fr st1 using excl by (auto split: option.splits)
  qed
qed


text \<open>
  The registry stores an instance under its own group: the constructor of an instance at a
  fresh reference keeps it so, and so does the release of an item.
\<close>

lemma registry_constructor:
  assumes reg: "\<forall>g r. map_of (groupLayouts w) g = Some r \<longrightarrow> group (insts w r) = g"
    and fresh: "this \<notin> snd ` set (groupLayouts w)"
  shows "\<forall>g r. map_of (groupLayouts (constructor U this p w)) g = Some r \<longrightarrow>
               group (insts (constructor U this p w) r) = g"
proof (intro allI impI)
  fix g r
  let ?g0 = "group (insts (constructor U this p w) this)"
  assume a: "map_of (groupLayouts (constructor U this p w)) g = Some r"
  have reg': "groupLayouts (constructor U this p w) = AList.update ?g0 this (groupLayouts w)"
    by (simp add: constructor_def Let_def)
  show "group (insts (constructor U this p w) r) = g"
  proof (cases "g = ?g0")
    case True
    with a reg' have "r = this" by (simp add: update_conv')
    with True show ?thesis by simp
  next
    case False
    with a reg' have old: "map_of (groupLayouts w) g = Some r" by (simp add: update_conv')
    then have "(g, r) \<in> set (groupLayouts w)" by (rule map_of_SomeD)
    then have "r \<in> snd ` set (groupLayouts w)" by force
    with fresh have "r \<noteq> this" by auto
    then have "insts (constructor U this p w) r = insts w r"
      by (simp add: constructor_def Let_def)
    with reg old show ?thesis by simp
  qed
qed

lemma registry_removeHoverdGroupItem:
  assumes reg: "\<forall>g r. map_of (groupLayouts w) g = Some r \<longrightarrow> group (insts w r) = g"
  shows "\<forall>g r. map_of (groupLayouts (removeHoverdGroupItem U this li w)) g = Some r \<longrightarrow>
               group (insts (removeHoverdGroupItem U this li w) r) = g"
proof -
  have fold: "groupLayouts (foldl (\<lambda>w' g. if g \<noteq> g0 then removeOtherGroupItem U li g w' else w') v gs)
                = groupLayouts v \<and>
              (\<forall>q. group (insts (foldl (\<lambda>w' g. if g \<noteq> g0 then removeOtherGroupItem U li g w' else w') v gs) q)
                 = group (insts v q))" for g0 v gs
    by (induction gs arbitrary: v) (simp_all add: removeOtherGroupItem_frame)
  show ?thesis
    using reg fold [of "group (insts w this)" w "hoveredGroups w"]
    by (simp add: removeHoverdGroupItem_def)
qed

text \<open>
  C4. More than one group is marked hovered, no group twice (\<open>hover\<close> pushes a group only
  when \<open>indexOf\<close> does not find it), and every key of the registry is the group of the
  instance stored under it (the constructor stores an instance under its own group).
  Then \<open>removeHoverdGroupItem\<close>, called by the instance \<open>this\<close> for the item \<open>li\<close>, leaves
  \<open>hoveredGroups\<close> as the list of the group of \<open>this\<close> alone and the state of \<open>this\<close> as it
  was. For every other hovered group with a registered instance, the first item with the
  identifier of \<open>li\<close> is spliced out of that instance's layouts, the rest is compacted, and
  its dragging item and previous position are reset; an instance that does not hold the
  identifier is unchanged. When \<open>compact\<close> introduces no identifier and the identifiers of
  that layout are distinct, the layout no longer holds the identifier of \<open>li\<close>.
\<close>

theorem removeHoverdGroupItem_releases:
  assumes many: "1 < length (hoveredGroups w)"
    and dist: "distinct (hoveredGroups w)"
    and reg: "\<forall>g r. map_of (groupLayouts w) g = Some r \<longrightarrow> group (insts w r) = g"
  shows "hoveredGroups (removeHoverdGroupItem U this li w) = [group (insts w this)] \<and>
         state (insts (removeHoverdGroupItem U this li w) this) = state (insts w this) \<and>
         (\<forall>g\<in>set (hoveredGroups w). \<forall>r.
            g \<noteq> group (insts w this) \<and> map_of (groupLayouts w) g = Some r \<longrightarrow>
            state (insts (removeHoverdGroupItem U this li w) r) =
              (case findIndex (\<lambda>l. l_i l = l_i li) (layouts (state (insts w r))) of
                 None \<Rightarrow> state (insts w r)
               | Some k \<Rightarrow> (state (insts w r))
                   \<lparr>layouts := u_compact U (splice1 k (layouts (state (insts w r))))
                                 (p_compactType (props (insts w r))) (p_cols (props (insts w r))),
                    draggingItem := None, prevPosition := None\<rparr>) \<and>
            ((\<forall>ls t c. l_i ` set (u_compact U ls t c) \<subseteq> l_i ` set ls) \<and>
             distinct (map l_i (layouts (state (insts w r)))) \<longrightarrow>
               l_i li \<notin> l_i ` set (layouts (state (insts (removeHoverdGroupItem U this li w) r)))))"
proof -
  let ?g0 = "group (insts w this)"
  let ?f = "foldl (\<lambda>w' g. if g \<noteq> ?g0 then removeOtherGroupItem U li g w' else w') w
              (hoveredGroups w)"
  let ?rel = "\<lambda>q. case findIndex (\<lambda>l. l_i l = l_i li) (layouts (state (insts w q))) of
                 None \<Rightarrow> state (insts w q)
               | Some k \<Rightarrow> (state (insts w q))
                   \<lparr>layouts := u_compact U (splice1 k (layouts (state (insts w q))))
                                 (p_compactType (props (insts w q))) (p_cols (props (insts w q))),
                    draggingItem := None, prevPosition := None\<rparr>"
  have run: "removeHoverdGroupItem U this li w = ?f\<lparr>hoveredGroups := [?g0]\<rparr>"
    using many by (simp add: removeHoverdGroupItem_def)
  have st: "state (insts ?f q) =
              (if \<exists>g\<in>set (hoveredGroups w). g \<noteq> ?g0 \<and> map_of (groupLayouts w) g = Some q
               then ?rel q else state (insts w q))" for q
    using release_fold [OF dist reg, of ?g0 U li] by blast
  have a: "hoveredGroups (removeHoverdGroupItem U this li w) = [?g0]"
    unfolding run by simp
  have b: "state (insts (removeHoverdGroupItem U this li w) this) = state (insts w this)"
    unfolding run using st [of this] reg by auto
  have c: "state (insts (removeHoverdGroupItem U this li w) r) = ?rel r"
    if "g \<in> set (hoveredGroups w)" "g \<noteq> ?g0" "map_of (groupLayouts w) g = Some r" for g r
    unfolding run using st [of r] that by auto
  have d: "l_i li \<notin> l_i ` set (layouts (state (insts (removeHoverdGroupItem U this li w) r)))"
    if g: "g \<in> set (hoveredGroups w)" "g \<noteq> ?g0" "map_of (groupLayouts w) g = Some r"
      and ids: "\<forall>ls t c. l_i ` set (u_compact U ls t c) \<subseteq> l_i ` set ls"
      and uniq: "distinct (map l_i (layouts (state (insts w r))))" for g r
  proof (cases "findIndex (\<lambda>l. l_i l = l_i li) (layouts (state (insts w r)))")
    case None
    then have "\<forall>x\<in>set (layouts (state (insts w r))). l_i x \<noteq> l_i li"
      by (simp add: findIndex_None)
    then show ?thesis
      unfolding c [OF g] None by auto
  next
    case (Some k)
    let ?ls = "layouts (state (insts w r))"
    from findIndex_Some [OF Some] have k: "k < length ?ls" "l_i (?ls ! k) = l_i li"
      by auto
    from splice1_drops_unique [OF uniq k(1)] k(2)
    have "l_i li \<notin> l_i ` set (splice1 k ?ls)" by simp
    with ids have "l_i li \<notin> l_i ` set (u_compact U (splice1 k ?ls)
                      (p_compactType (props (insts w r))) (p_cols (props (insts w r))))"
      by blast
    then show ?thesis
      unfolding c [OF g] Some by simp
  qed
  from a b c d show ?thesis by blast
qed

text \<open>
  Item \<open>1\<close> was dragged from the layout \<open>a\<close> into the layout \<open>b\<close>: \<open>a\<close> releases it and keeps
  item \<open>2\<close>.
\<close>

theorem removeHoverdGroupItem_releases_witness:
  "hoveredGroups (removeHoverdGroupItem example_utils 1 (mkItem ''1'' 5 5 2 1)
      (example_world
         (example_layout ''a'' [mkItem ''1'' 0 0 2 1, mkItem ''2'' 2 0 1 1]
            (Some [mkItem ''1'' 0 0 2 1, mkItem ''2'' 2 0 1 1]) (Some (mkItem ''1'' 0 0 2 1)))
         (example_layout ''b'' [(mkItem ''1'' 5 5 2 1)\<lparr>l_placeholder := True\<rparr>] (Some []) None)
         [''a'', ''b''])) = [''b''] \<and>
   layouts (state (insts (removeHoverdGroupItem example_utils 1 (mkItem ''1'' 5 5 2 1)
      (example_world
         (example_layout ''a'' [mkItem ''1'' 0 0 2 1, mkItem ''2'' 2 0 1 1]
            (Some [mkItem ''1'' 0 0 2 1, mkItem ''2'' 2 0 1 1]) (Some (mkItem ''1'' 0 0 2 1)))
         (example_layout ''b'' [(mkItem ''1'' 5 5 2 1)\<lparr>l_placeholder := True\<rparr>] (Some []) None)
         [''a'', ''b''])) 0)) = [mkItem ''2'' 2 0 1 1] \<and>
   layouts (state (insts (removeHoverdGroupItem example_utils 1 (mkItem ''1'' 5 5 2 1)
      (example_world
         (example_layout ''a'' [mkItem ''1'' 0 0 2 1, mkItem ''2'' 2 0 1 1]
            (Some [mkItem ''1'' 0 0 2 1, mkItem ''2'' 2 0 1 1]) (Some (mkItem ''1'' 0 0 2 1)))
         (example_layout ''b'' [(mkItem ''1'' 5 5 2 1)\<lparr>l_placeholder := True\<rparr>] (Some []) None)
         [''a'', ''b''])) 1)) = [(mkItem ''1'' 5 5 2 1)\<lparr>l_placeholder := True\<rparr>] \<and>
   ''1'' \<notin> l_i ` set (layouts (state (insts
      (removeHoverdGroupItem example_utils 1 (mkItem ''1'' 5 5 2 1)
         (example_world
            (example_layout ''a'' [mkItem ''1'' 0 0 2 1, mkItem ''2'' 2 0 1 1]
               (Some [mkItem ''1'' 0 0 2 1, mkItem ''2'' 2 0 1 1]) (Some (mkItem ''1'' 0 0 2 1)))
            (example_layout ''b'' [(mkItem ''1'' 5 5 2 1)\<lparr>l_placeholder := True\<rparr>] (Some []) None)
            [''a'', ''b''])) 0)))"
proof -
  let ?li = "mkItem ''1'' 5 5 2 1"
  let ?w = "example_world
              (example_layout ''a'' [mkItem ''1'' 0 0 2 1, mkItem ''2'' 2 0 1 1]
                 (Some [mkItem ''1'' 0 0 2 1, mkItem ''2'' 2 0 1 1]) (Some (mkItem ''1'' 0 0 2 1)))
              (example_layout ''b'' [(mkItem ''1'' 5 5 2 1)\<lparr>l_placeholder := True\<rparr>] (Some []) None)
              [''a'', ''b'']"
  let ?w' = "removeHoverdGroupItem example_utils 1 ?li ?w"
  have many: "1 < length (hoveredGroups ?w)"
    by (simp add: example_world_def)
  have dist: "distinct (hoveredGroups ?w)"
    by (simp add: example_world_def)
  have reg: "\<forall>g r. map_of (groupLayouts ?w) g = Some r \<longrightarrow> group (insts ?w r) = g"
    by (simp add: example_world_def example_layout_def)
  have ids: "\<forall>ls t c. l_i ` set (u_compact example_utils ls t c) \<subseteq> l_i ` set ls"
  proof (intro allI)
    fix ls t c
    have "set (map l_i (compact ls t c)) = set (map l_i ls)"
      by (simp only: compact_ids)
    then show "l_i ` set (u_compact example_utils ls t c) \<subseteq> l_i ` set ls"
      by (simp add: example_utils_def)
  qed
  have w: "group (insts ?w 1) = ''b''" "''a'' \<in> set (hoveredGroups ?w)"
    "map_of (groupLayouts ?w) ''a'' = Some 0"
    "layouts (state (insts ?w 0)) = [mkItem ''1'' 0 0 2 1, mkItem ''2'' 2 0 1 1]"
    "layouts (state (insts ?w 1)) = [(mkItem ''1'' 5 5 2 1)\<lparr>l_placeholder := True\<rparr>]"
    "props (insts ?w 0) = example_props ''a'' [mkItem ''1'' 0 0 2 1, mkItem ''2'' 2 0 1 1]"
    by (simp_all add: example_world_def example_layout_def)
  have uniq: "distinct (map l_i (layouts (state (insts ?w 0))))"
    unfolding w by (simp add: mkItem_def)
  have found: "findIndex (\<lambda>l. l_i l = l_i ?li) (layouts (state (insts ?w 0))) = Some 0"
    unfolding w by (simp add: mkItem_def)
  note rel = removeHoverdGroupItem_releases [OF many dist reg, of example_utils 1 ?li]
  have a: "hoveredGroups ?w' = [''b'']"
    using rel [THEN conjunct1] unfolding w(1) .
  have "state (insts ?w' 1) = state (insts ?w 1)"
    using rel [THEN conjunct2, THEN conjunct1] .
  then have b: "layouts (state (insts ?w' 1)) = [(mkItem ''1'' 5 5 2 1)\<lparr>l_placeholder := True\<rparr>]"
    using w(5) by simp
  have other: "''a'' \<noteq> group (insts ?w 1) \<and> map_of (groupLayouts ?w) ''a'' = Some 0"
    unfolding w by simp
  note at_a = rel [THEN conjunct2, THEN conjunct2, rule_format, OF w(2) other]
  have c: "layouts (state (insts ?w' 0)) = [mkItem ''2'' 2 0 1 1]"
    unfolding at_a [THEN conjunct1] found unfolding w
    by (simp add: example_utils_def example_props_def compact_def splice1_def)
  have "l_i ?li \<notin> l_i ` set (layouts (state (insts ?w' 0)))"
    using at_a [THEN conjunct2] ids uniq by (simp only: simp_thms)
  then have d: "''1'' \<notin> l_i ` set (layouts (state (insts ?w' 0)))"
    by (simp add: mkItem_def)
  from a c b d show ?thesis by blast
qed

subsection \<open>Resizing against collisions\<close>

lemma least_foldl:
  "foldl (\<lambda>acc c. if f c > b
                   then Some (case acc of None \<Rightarrow> f c | Some m \<Rightarrow> min m (f c))
                   else acc) acc cs =
     (if filter (\<lambda>c. b < f c) cs = [] then acc
      else Some (case acc of
                   None \<Rightarrow> Min (set (map f (filter (\<lambda>c. b < f c) cs)))
                 | Some m \<Rightarrow> min m (Min (set (map f (filter (\<lambda>c. b < f c) cs))))))"
proof (induction cs arbitrary: acc)
  case Nil
  then show ?case by simp
next
  case (Cons c cs)
  show ?case
  proof (cases "b < f c")
    case False
    then show ?thesis using Cons.IH [of acc] by (simp split: option.splits)
  next
    case True
    show ?thesis
    proof (cases "filter (\<lambda>c. b < f c) cs = []")
      case True
      with \<open>b < f c\<close> Cons.IH show ?thesis
        by (simp split: option.splits)
    next
      case False
      then have ne: "set (map f (filter (\<lambda>c. b < f c) cs)) \<noteq> {}"
        by (simp only: set_empty map_is_Nil_conv not_False_eq_True)
      have fin: "finite (set (map f (filter (\<lambda>c. b < f c) cs)))" by simp
      from \<open>b < f c\<close> False Cons.IH Min_insert [OF fin ne, of "f c"] show ?thesis
        by (simp add: min.assoc min.commute split: option.splits)
    qed
  qed
qed

lemma least_Min:
  "least f b cs =
     (if filter (\<lambda>c. b < f c) cs = [] then None
      else Some (Min (set (map f (filter (\<lambda>c. b < f c) cs)))))"
  unfolding least_def least_foldl by simp

text \<open>
  C5. The function \<open>onResize\<close> applies to the item \<open>l\<close>, for the requested size \<open>(w, h)\<close>.
  The collisions are the items that \<open>getAllCollisions\<close> returns for \<open>l\<close> at that size, other
  than \<open>l\<close> itself. With \<open>preventCollision\<close> and a collision, \<open>x\<close>, \<open>y\<close> and every other
  property stay and the size is set per axis: the width becomes \<open>leastX - x\<close>, with \<open>leastX\<close>
  the least \<open>x\<close> of the collisions whose \<open>x\<close> is greater than that of \<open>l\<close>, and stays when
  there is none; the height likewise. Otherwise the size becomes \<open>(w, h)\<close>. \<open>onResize\<close>
  stores the position and size of the item that \<open>withLayoutItem\<close> returns as the
  placeholder, and the compacted layouts.
\<close>

theorem onResize_adjusts_size:
  "(p \<and> filter (\<lambda>c. l_i c \<noteq> l_i l) (u_getAllCollisions U ls (l\<lparr>l_w := w, l_h := h\<rparr>)) \<noteq> [] \<longrightarrow>
      onResize_cb U ls p w h l =
        l\<lparr>l_w := (if filter (\<lambda>c. l_x l < l_x c)
                        (filter (\<lambda>c. l_i c \<noteq> l_i l)
                           (u_getAllCollisions U ls (l\<lparr>l_w := w, l_h := h\<rparr>))) = []
                   then l_w l
                   else Min (set (map l_x (filter (\<lambda>c. l_x l < l_x c)
                          (filter (\<lambda>c. l_i c \<noteq> l_i l)
                             (u_getAllCollisions U ls (l\<lparr>l_w := w, l_h := h\<rparr>)))))) - l_x l),
          l_h := (if filter (\<lambda>c. l_y l < l_y c)
                        (filter (\<lambda>c. l_i c \<noteq> l_i l)
                           (u_getAllCollisions U ls (l\<lparr>l_w := w, l_h := h\<rparr>))) = []
                   then l_h l
                   else Min (set (map l_y (filter (\<lambda>c. l_y l < l_y c)
                          (filter (\<lambda>c. l_i c \<noteq> l_i l)
                             (u_getAllCollisions U ls (l\<lparr>l_w := w, l_h := h\<rparr>)))))) - l_y l)\<rparr>) \<and>
   (\<not> (p \<and> filter (\<lambda>c. l_i c \<noteq> l_i l) (u_getAllCollisions U ls (l\<lparr>l_w := w, l_h := h\<rparr>)) \<noteq> []) \<longrightarrow>
      onResize_cb U ls p w h l = l\<lparr>l_w := w, l_h := h\<rparr>) \<and>
   (\<forall>nl r. u_withLayoutItem U (layouts (state (insts wd this))) (l_i item)
              (onResize_cb U (layouts (state (insts wd this)))
                 (p_preventCollision (props (insts wd this))) w h) = (nl, Some r) \<longrightarrow>
      state (insts (onResize U this item w h wd) this) =
        (state (insts wd this))
          \<lparr>layouts := u_compact U nl (p_compactType (props (insts wd this)))
                         (p_cols (props (insts wd this))),
           placeholder := Some \<lparr>l_i = l_i item, l_x = l_x r, l_y = l_y r, l_w = l_w r,
                                l_h = l_h r, l_static = True, l_placeholder = False,
                                l_group = None\<rparr>\<rparr>)"
  by (auto simp: onResize_cb_def onResize_def least_Min Let_def split: option.splits)

text \<open>
  Item \<open>1\<close> at \<open>(0, 0)\<close> is widened to three columns, onto item \<open>2\<close> in column 2: it gets two
  columns. Made two rows high it meets nothing and gets the size asked for.
\<close>

theorem onResize_adjusts_size_witness:
  "onResize_cb example_utils
     [mkItem ''1'' 0 0 1 1, mkItem ''2'' 2 0 1 1, mkItem ''3'' 0 3 1 1] True 3 1
     (mkItem ''1'' 0 0 1 1) = mkItem ''1'' 0 0 2 1 \<and>
   onResize_cb example_utils
     [mkItem ''1'' 0 0 1 1, mkItem ''2'' 2 0 1 1, mkItem ''3'' 0 3 1 1] True 1 2
     (mkItem ''1'' 0 0 1 1) = mkItem ''1'' 0 0 1 2 \<and>
   placeholder (state (insts
     (onResize example_utils 0 (mkItem ''1'' 0 0 1 1) 3 1
        (example_world
           (example_layout ''a'' [mkItem ''1'' 0 0 1 1, mkItem ''2'' 2 0 1 1, mkItem ''3'' 0 3 1 1]
              None None)
           (example_layout ''b'' [] None None) [])) 0))
     = Some ((mkItem ''1'' 0 0 2 1)\<lparr>l_static := True\<rparr>)"
proof -
  let ?ls = "[mkItem ''1'' 0 0 1 1, mkItem ''2'' 2 0 1 1, mkItem ''3'' 0 3 1 1]"
  let ?l = "mkItem ''1'' 0 0 1 1"
  let ?w = "example_world (example_layout ''a'' ?ls None None)
              (example_layout ''b'' [] None None) []"
  have wide: "filter (\<lambda>c. l_i c \<noteq> l_i ?l)
                (u_getAllCollisions example_utils ?ls (?l\<lparr>l_w := 3, l_h := 1\<rparr>))
              = [mkItem ''2'' 2 0 1 1]"
    by (simp add: example_utils_def getAllCollisions_def collides_def meets_def mkItem_def)
  have high: "filter (\<lambda>c. l_i c \<noteq> l_i ?l)
                (u_getAllCollisions example_utils ?ls (?l\<lparr>l_w := 1, l_h := 2\<rparr>))
              = []"
    by (simp add: example_utils_def getAllCollisions_def collides_def meets_def mkItem_def)
  have a: "onResize_cb example_utils ?ls True 3 1 ?l = mkItem ''1'' 0 0 2 1"
    using onResize_adjusts_size
            [where p = True and l = ?l and U = example_utils and ls = ?ls and w = 3 and h = 1,
             THEN conjunct1]
    unfolding wide by (simp add: mkItem_def)
  have b: "onResize_cb example_utils ?ls True 1 2 ?l = mkItem ''1'' 0 0 1 2"
    using onResize_adjusts_size
            [where p = True and l = ?l and U = example_utils and ls = ?ls and w = 1 and h = 2,
             THEN conjunct2, THEN conjunct1]
    unfolding high by (simp add: mkItem_def)
  have w: "layouts (state (insts ?w 0)) = ?ls"
    "props (insts ?w 0) = example_props ''a'' ?ls"
    "placeholder (state (insts ?w 0)) = None"
    by (simp_all add: example_world_def example_layout_def)
  have found: "getLayoutItem ?ls (l_i ?l) = Some 0"
    by (simp add: getLayoutItem_def mkItem_def)
  have call: "u_withLayoutItem example_utils (layouts (state (insts ?w 0))) (l_i ?l)
                (onResize_cb example_utils (layouts (state (insts ?w 0)))
                   (p_preventCollision (props (insts ?w 0))) 3 1)
              = (?ls[0 := mkItem ''1'' 0 0 2 1], Some (mkItem ''1'' 0 0 2 1))"
    unfolding w using a found by (simp add: example_utils_def example_props_def)
  from onResize_adjusts_size
         [where U = example_utils and wd = ?w and this = 0 and item = ?l and w = 3 and h = 1,
          THEN conjunct2, THEN conjunct2, rule_format, OF call]
  have c: "placeholder (state (insts (onResize example_utils 0 ?l 3 1 ?w) 0))
             = Some ((mkItem ''1'' 0 0 2 1)\<lparr>l_static := True\<rparr>)"
    by (simp add: mkItem_def)
  from a b c show ?thesis by (intro conjI)
qed

subsection \<open>A hover tick over the same cell\<close>

text \<open>
  C10. The container is mounted, the cell that \<open>calcXY\<close> computes for the item and the
  pointer offset is the recorded previous position, and the item is the element \<open>k\<close> of the
  layouts. Then \<open>moveItem\<close> does nothing but set the placeholder flag of that element:
  \<open>draggingItem\<close> and \<open>prevPosition\<close> stay, the layouts stay but for the flag, and the
  outcome does not depend on \<open>moveElement\<close> or \<open>compact\<close>.
\<close>

theorem moveItem_same_cell:
  assumes mnt: "mounted (insts w this)"
    and same: "prevPosition (state (insts w this)) = Some (u_calcXY U (insts w this) li offset)"
    and held: "k < length (layouts (state (insts w this)))"
               "layouts (state (insts w this)) ! k = li"
  shows "moveItem U this li (Some k) offset w =
           setState this
             (\<lambda>s. s\<lparr>layouts := (layouts s)[k := (layouts s ! k)\<lparr>l_placeholder := True\<rparr>]\<rparr>) w \<and>
         draggingItem (state (insts (moveItem U this li (Some k) offset w) this)) =
           draggingItem (state (insts w this)) \<and>
         prevPosition (state (insts (moveItem U this li (Some k) offset w) this)) =
           prevPosition (state (insts w this)) \<and>
         map (\<lambda>l. l\<lparr>l_placeholder := False\<rparr>)
             (layouts (state (insts (moveItem U this li (Some k) offset w) this))) =
           map (\<lambda>l. l\<lparr>l_placeholder := False\<rparr>) (layouts (state (insts w this))) \<and>
         l_placeholder (layouts (state (insts (moveItem U this li (Some k) offset w) this)) ! k)"
proof -
  let ?ls = "layouts (state (insts w this))"
  have run: "moveItem U this li (Some k) offset w =
               setState this
                 (\<lambda>s. s\<lparr>layouts := (layouts s)[k := (layouts s ! k)\<lparr>l_placeholder := True\<rparr>]\<rparr>) w"
    using mnt same held(2) by (simp add: moveItem_def Let_def setState_def)
  have flag: "map (\<lambda>l. l\<lparr>l_placeholder := False\<rparr>) (?ls[k := (?ls ! k)\<lparr>l_placeholder := True\<rparr>]) =
              map (\<lambda>l. l\<lparr>l_placeholder := False\<rparr>) ?ls"
    using held(1) by (intro nth_equalityI) (auto simp: nth_list_update)
  show ?thesis
    unfolding run using held(1) flag by simp
qed

text \<open>A second tick over the cell \<open>(0, 0)\<close>, which the previous tick recorded.\<close>

theorem moveItem_same_cell_witness:
  "mounted (insts
     (example_world
        (example_layout ''a'' [mkItem ''1'' 0 0 2 1, mkItem ''2'' 2 0 1 1]
           (Some [mkItem ''1'' 3 0 2 1, mkItem ''2'' 2 0 1 1]) (Some (mkItem ''1'' 0 0 2 1)))
        (example_layout ''b'' [] None None) [''a'']) 0) \<and>
   state (insts
     (moveItem example_utils 0 (mkItem ''1'' 0 0 2 1) (Some 0) (0, 0)
        (example_world
           (example_layout ''a'' [mkItem ''1'' 0 0 2 1, mkItem ''2'' 2 0 1 1]
              (Some [mkItem ''1'' 3 0 2 1, mkItem ''2'' 2 0 1 1]) (Some (mkItem ''1'' 0 0 2 1)))
           (example_layout ''b'' [] None None) [''a''])) 0)
   = \<lparr>accept = [],
      layouts = [(mkItem ''1'' 0 0 2 1)\<lparr>l_placeholder := True\<rparr>, mkItem ''2'' 2 0 1 1],
      oldLayouts = Some [mkItem ''1'' 3 0 2 1, mkItem ''2'' 2 0 1 1],
      placeholder = None,
      draggingItem = Some (mkItem ''1'' 0 0 2 1),
      prevPosition = Some (0, 0)\<rparr>"
proof -
  let ?li = "mkItem ''1'' 0 0 2 1"
  let ?w = "example_world
              (example_layout ''a'' [mkItem ''1'' 0 0 2 1, mkItem ''2'' 2 0 1 1]
                 (Some [mkItem ''1'' 3 0 2 1, mkItem ''2'' 2 0 1 1]) (Some (mkItem ''1'' 0 0 2 1)))
              (example_layout ''b'' [] None None) [''a'']"
  have mnt: "mounted (insts ?w 0)"
    by (simp add: example_world_def example_layout_def)
  have same: "prevPosition (state (insts ?w 0)) =
                Some (u_calcXY example_utils (insts ?w 0) ?li (0, 0))"
    by (simp add: example_world_def example_layout_def example_utils_def)
  have held: "0 < length (layouts (state (insts ?w 0)))"
    "layouts (state (insts ?w 0)) ! 0 = ?li"
    by (simp_all add: example_world_def example_layout_def)
  from moveItem_same_cell [OF mnt same held, THEN conjunct1]
  have "state (insts (moveItem example_utils 0 ?li (Some 0) (0, 0) ?w) 0) =
          \<lparr>accept = [],
           layouts = [(mkItem ''1'' 0 0 2 1)\<lparr>l_placeholder := True\<rparr>, mkItem ''2'' 2 0 1 1],
           oldLayouts = Some [mkItem ''1'' 3 0 2 1, mkItem ''2'' 2 0 1 1],
           placeholder = None,
           draggingItem = Some (mkItem ''1'' 0 0 2 1),
           prevPosition = Some (0, 0)\<rparr>"
    by (simp add: example_world_def example_layout_def)
  with mnt show ?thesis by (rule conjI)
qed

subsection \<open>Group names\<close>

lemma digit_inj: "a < 10 \<Longrightarrow> b < 10 \<Longrightarrow> digit a = digit b \<Longrightarrow> a = b"
proof -
  assume a: "a < 10" and b: "b < 10" and eq: "digit a = digit b"
  have d: "distinct ''0123456789''" by simp
  have "length ''0123456789'' = 10" by simp
  with a b eq d show "a = b"
    unfolding digit_def by (simp add: nth_eq_iff_index_eq)
qed

lemma toString_nonempty: "toString n \<noteq> []"
  by (subst toString.simps) simp

lemma toString_inj: "toString n = toString m \<Longrightarrow> n = m"
proof (induction n arbitrary: m rule: toString.induct)
  case (1 n)
  show ?case
  proof (cases "n < 10")
    case True
    then have n: "toString n = [digit n]" by (subst toString.simps) simp
    show ?thesis
    proof (cases "m < 10")
      case True
      then have "toString m = [digit m]" by (subst toString.simps) simp
      with n "1.prems" have "digit n = digit m" by simp
      with \<open>n < 10\<close> True show ?thesis by (rule digit_inj)
    next
      case False
      then have "toString m = toString (m div 10) @ [digit (m mod 10)]"
        by (subst toString.simps) simp
      with n "1.prems" toString_nonempty [of "m div 10"] show ?thesis by simp
    qed
  next
    case False
    then have n: "toString n = toString (n div 10) @ [digit (n mod 10)]"
      by (subst toString.simps) simp
    show ?thesis
    proof (cases "m < 10")
      case True
      then have "toString m = [digit m]" by (subst toString.simps) simp
      with n "1.prems" toString_nonempty [of "n div 10"] show ?thesis by simp
    next
      case m: False
      then have "toString m = toString (m div 10) @ [digit (m mod 10)]"
        by (subst toString.simps) simp
      with n "1.prems" have eq: "toString (n div 10) = toString (m div 10)"
        "digit (n mod 10) = digit (m mod 10)"
        by simp_all
      from "1.IH" [OF False eq(1)] have "n div 10 = m div 10" .
      moreover from digit_inj [OF _ _ eq(2)] have "n mod 10 = m mod 10" by simp
      ultimately show ?thesis by (metis div_mult_mod_eq)
    qed
  qed
qed

lemma constructor_group:
  "group (insts (constructor U this p w) this) =
     (if p_group p \<noteq> [] then p_group p else DEFAULT_GROUP U @ ''_'' @ toString (groupIndex w))"
  by (simp add: constructor_def Let_def)

lemma constructor_groupIndex: "groupIndex (constructor U this p w) = groupIndex w + 1"
  by (simp add: constructor_def Let_def)

lemma assigned_later:
  "(p, g) \<in> set (assigned U calls w) \<Longrightarrow> p_group p = [] \<Longrightarrow>
   \<exists>n\<ge>groupIndex w. g = DEFAULT_GROUP U @ ''_'' @ toString n"
proof (induction calls arbitrary: w)
  case Nil
  then show ?case by simp
next
  case (Cons call calls)
  from Cons.prems(1) consider
    "(p, g) = (snd call, group (insts (constructor U (fst call) (snd call) w) (fst call)))"
    | "(p, g) \<in> set (assigned U calls (constructor U (fst call) (snd call) w))"
    by auto
  then show ?case
  proof cases
    case 1
    with Cons.prems(2) show ?thesis
      by (auto simp: constructor_group)
  next
    case 2
    from Cons.IH [OF 2 Cons.prems(2)] obtain n where
      "n \<ge> groupIndex (constructor U (fst call) (snd call) w)"
      "g = DEFAULT_GROUP U @ ''_'' @ toString n"
      by blast
    then have "n \<ge> groupIndex w \<and> g = DEFAULT_GROUP U @ ''_'' @ toString n"
      by (simp add: constructor_groupIndex)
    then show ?thesis by blast
  qed
qed

lemma assigned_distinct:
  "distinct (map snd (filter (\<lambda>a. p_group (fst a) = []) (assigned U calls w)))"
proof (induction calls arbitrary: w)
  case Nil
  then show ?case by simp
next
  case (Cons call calls)
  let ?w' = "constructor U (fst call) (snd call) w"
  show ?case
  proof (cases "p_group (snd call) = []")
    case False
    then show ?thesis using Cons.IH [of ?w'] by simp
  next
    case True
    have "DEFAULT_GROUP U @ ''_'' @ toString (groupIndex w)
            \<notin> snd ` set (filter (\<lambda>a. p_group (fst a) = []) (assigned U calls ?w'))"
    proof
      assume "DEFAULT_GROUP U @ ''_'' @ toString (groupIndex w)
                \<in> snd ` set (filter (\<lambda>a. p_group (fst a) = []) (assigned U calls ?w'))"
      then obtain p where p: "(p, DEFAULT_GROUP U @ ''_'' @ toString (groupIndex w))
                                \<in> set (assigned U calls ?w')" "p_group p = []"
        by auto
      from assigned_later [OF p] obtain n where
        n: "n \<ge> groupIndex ?w'" "toString (groupIndex w) = toString n"
        by auto
      from toString_inj [OF n(2)] n(1) show False
        by (simp add: constructor_groupIndex)
    qed
    with True Cons.IH [of ?w'] show ?thesis
      by (simp add: constructor_group)
  qed
qed

text \<open>
  C9. An instance constructed without a group prop gets the group \<open>DEFAULT_GROUP\<close>, an
  underscore and the decimal numeral of the counter \<open>groupIndex\<close>; every construction adds
  one to the counter and stores the instance in \<open>groupLayouts\<close> under its group. Two
  instances constructed without a group prop at different values of the counter get
  different groups, and so do all the instances without a group prop that a host
  constructs one after the other, from any world. The counter is a natural number here; a
  JavaScript number counts exactly up to \<open>2^53\<close>.
\<close>

theorem anonymous_groups_distinct:
  "(p_group p = [] \<longrightarrow>
      group (insts (constructor U this p w) this) =
        DEFAULT_GROUP U @ ''_'' @ toString (groupIndex w)) \<and>
   groupIndex (constructor U this p w) = groupIndex w + 1 \<and>
   map_of (groupLayouts (constructor U this p w)) (group (insts (constructor U this p w) this))
     = Some this \<and>
   (p_group p = [] \<and> p_group p' = [] \<and> groupIndex w \<noteq> groupIndex w' \<longrightarrow>
      group (insts (constructor U this p w) this) \<noteq>
      group (insts (constructor U this' p' w') this')) \<and>
   distinct (map snd (filter (\<lambda>a. p_group (fst a) = []) (assigned U calls w)))"
proof (intro conjI impI)
  show "map_of (groupLayouts (constructor U this p w))
          (group (insts (constructor U this p w) this)) = Some this"
    by (simp add: constructor_def Let_def update_conv')
next
  assume "p_group p = [] \<and> p_group p' = [] \<and> groupIndex w \<noteq> groupIndex w'"
  then show "group (insts (constructor U this p w) this) \<noteq>
             group (insts (constructor U this' p' w') this')"
    by (auto simp: constructor_group dest: toString_inj)
qed (simp_all add: constructor_group constructor_groupIndex assigned_distinct)

text \<open>Two instances without a group prop, constructed when the counter is 2.\<close>

theorem anonymous_groups_distinct_witness:
  "p_group (example_props [] []) = [] \<and>
   group (insts (constructor example_utils 5 (example_props [] [])
                   (example_world (example_layout ''a'' [] None None)
                      (example_layout ''b'' [] None None) [])) 5) = ''layout_2'' \<and>
   map snd (assigned example_utils [(5, example_props [] []), (6, example_props [] [])]
              (example_world (example_layout ''a'' [] None None)
                 (example_layout ''b'' [] None None) []))
     = [''layout_2'', ''layout_3''] \<and>
   group (insts (constructor example_utils 5 (example_props [] [])
                   (example_world (example_layout ''a'' [] None None)
                      (example_layout ''b'' [] None None) [])) 5) \<noteq>
   group (insts (constructor example_utils 6 (example_props [] [])
                   (constructor example_utils 5 (example_props [] [])
                      (example_world (example_layout ''a'' [] None None)
                         (example_layout ''b'' [] None None) []))) 6)"
proof -
  let ?w = "example_world (example_layout ''a'' [] None None) (example_layout ''b'' [] None None) []"
  let ?p = "example_props [] []"
  have anon: "p_group ?p = []"
    by (simp add: example_props_def)
  have two: "toString 2 = ''2''" "toString 3 = ''3''"
    by (simp_all add: toString.simps digit_def)
  have idx: "groupIndex ?w = 2"
    by (simp add: example_world_def)
  from anonymous_groups_distinct
         [where p = ?p and U = example_utils and this = 5 and w = ?w, THEN conjunct1] anon
  have a: "group (insts (constructor example_utils 5 ?p ?w) 5) = ''layout_2''"
    by (simp add: idx two example_utils_def)
  from anonymous_groups_distinct
         [where p = ?p and U = example_utils and this = 6
            and w = "constructor example_utils 5 ?p ?w", THEN conjunct1] anon
  have b: "group (insts (constructor example_utils 6 ?p (constructor example_utils 5 ?p ?w)) 6)
             = ''layout_3''"
    by (simp add: constructor_groupIndex idx two example_utils_def)
  from a b have c: "map snd (assigned example_utils [(5, ?p), (6, ?p)] ?w)
                      = [''layout_2'', ''layout_3'']"
    by simp
  have later: "groupIndex ?w \<noteq> groupIndex (constructor example_utils 5 ?p ?w)"
    by (simp add: constructor_groupIndex)
  from anonymous_groups_distinct
         [where p = ?p and p' = ?p and U = example_utils and this = 5 and this' = 6
            and w = ?w and w' = "constructor example_utils 5 ?p ?w",
          THEN conjunct2, THEN conjunct2, THEN conjunct2, THEN conjunct1] anon later
  have d: "group (insts (constructor example_utils 5 ?p ?w) 5) \<noteq>
           group (insts (constructor example_utils 6 ?p (constructor example_utils 5 ?p ?w)) 6)"
    by blast
  from anon a c d show ?thesis by (intro conjI)
qed

subsection \<open>Layouts from the host\<close>

text \<open>
  C6. The constructor stores \<open>reLayout(props.layouts, compactType, cols)\<close> as the layouts.
  \<open>getDerivedStateFromProps\<close> returns \<open>reLayout\<close> of the new props' layouts when no group
  is hovered, no resize placeholder is set and \<open>isEqual\<close> of the props' layouts and the
  state's layouts is false, and \<open>null\<close> otherwise; merged by React, the state keeps
  everything but the layouts in the first case and is unchanged in the second.
\<close>

theorem layouts_enter_through_reLayout:
  "layouts (state (insts (constructor U this p w) this)) =
     u_reLayout U (p_layouts p) (p_compactType p) (p_cols p) \<and>
   getDerivedStateFromProps U hovered p st =
     (if hovered = [] \<and> placeholder st = None \<and> \<not> u_isEqual U (p_layouts p) (layouts st)
      then Some (u_reLayout U (p_layouts p) (p_compactType p) (p_cols p))
      else None) \<and>
   state (insts (receiveProps U this p w) this) =
     (if hoveredGroups w = [] \<and> placeholder (state (insts w this)) = None \<and>
         \<not> u_isEqual U (p_layouts p) (layouts (state (insts w this)))
      then (state (insts w this))
             \<lparr>layouts := u_reLayout U (p_layouts p) (p_compactType p) (p_cols p)\<rparr>
      else state (insts w this))"
  by (simp add: constructor_def getDerivedStateFromProps_def receiveProps_def Let_def)

text \<open>
  New layouts arrive from the host while nothing is hovered, and again while the group \<open>a\<close>
  is hovered.
\<close>

theorem layouts_enter_through_reLayout_witness:
  "layouts (state (insts
      (receiveProps example_utils 0 (example_props ''a'' [mkItem ''1'' 0 4 1 1])
         (example_world (example_layout ''a'' [mkItem ''1'' 0 0 1 1] None None)
            (example_layout ''b'' [] None None) [])) 0))
     = u_reLayout example_utils [mkItem ''1'' 0 4 1 1] NoCompact 12 \<and>
   state (insts
      (receiveProps example_utils 0 (example_props ''a'' [mkItem ''1'' 0 4 1 1])
         (example_world (example_layout ''a'' [mkItem ''1'' 0 0 1 1] None None)
            (example_layout ''b'' [] None None) [''a''])) 0)
     = state (example_layout ''a'' [mkItem ''1'' 0 0 1 1] None None)"
proof -
  let ?p = "example_props ''a'' [mkItem ''1'' 0 4 1 1]"
  let ?A = "example_layout ''a'' [mkItem ''1'' 0 0 1 1] None None"
  let ?idle = "example_world ?A (example_layout ''b'' [] None None) []"
  let ?busy = "example_world ?A (example_layout ''b'' [] None None) [''a'']"
  have idle: "hoveredGroups ?idle = []" "insts ?idle 0 = ?A"
    and busy: "hoveredGroups ?busy = [''a'']" "insts ?busy 0 = ?A"
    by (simp_all add: example_world_def)
  have differ: "\<not> u_isEqual example_utils (p_layouts ?p) (layouts (state ?A))"
    by (simp add: example_utils_def example_props_def example_layout_def mkItem_def)
  have rest: "placeholder (state ?A) = None" "p_layouts ?p = [mkItem ''1'' 0 4 1 1]"
    "p_compactType ?p = NoCompact" "p_cols ?p = 12"
    by (simp_all add: example_props_def example_layout_def)
  from layouts_enter_through_reLayout
         [where U = example_utils and this = 0 and p = ?p and w = ?idle,
          THEN conjunct2, THEN conjunct2]
  have a: "layouts (state (insts (receiveProps example_utils 0 ?p ?idle) 0))
             = u_reLayout example_utils [mkItem ''1'' 0 4 1 1] NoCompact 12"
    unfolding idle using differ rest by simp
  from layouts_enter_through_reLayout
         [where U = example_utils and this = 0 and p = ?p and w = ?busy,
          THEN conjunct2, THEN conjunct2]
  have b: "state (insts (receiveProps example_utils 0 ?p ?busy) 0) = state ?A"
    unfolding busy by simp
  from a b show ?thesis by (rule conjI)
qed

end
